theory Spec2Isabelle
  imports Complex_Main "HOL-Library.AList"
begin

section \<open>Common Python idioms\<close>

text \<open>
  The Python exceptions that the modelled code can raise or catch.  A computation that
  may raise has the type \<open>py_error + 'a\<close>, with \<open>Inl\<close> for the exception.
\<close>

datatype py_error =
    KeyError
  | ValueError
  | TypeError
  | AttributeError
  | OverflowError
  | ConnectionError
  | ResponseError
  | OperationalError

text \<open>\<open>d.get(k, default)\<close> on a dictionary.\<close>

definition dict_get :: "('k \<rightharpoonup> 'v) \<Rightarrow> 'k \<Rightarrow> 'v \<Rightarrow> 'v" where
  "dict_get d k dflt = (case d k of None \<Rightarrow> dflt | Some v \<Rightarrow> v)"

text \<open>\<open>d[k]\<close> on a dictionary: raises \<open>KeyError\<close> when the key is missing.\<close>

definition dict_item :: "('k \<rightharpoonup> 'v) \<Rightarrow> 'k \<Rightarrow> py_error + 'v" where
  "dict_item d k = (case d k of None \<Rightarrow> Inl KeyError | Some v \<Rightarrow> Inr v)"

text \<open>The slice \<open>xs[-n:]\<close> for a positive literal \<open>n\<close>: the last \<open>n\<close> elements, or the
  whole list when it is shorter.\<close>

definition last_n :: "nat \<Rightarrow> 'a list \<Rightarrow> 'a list" where
  "last_n n xs = drop (length xs - n) xs"

section \<open>ContextOptimizer (src/cache/semantic\_cache.py)\<close>

text \<open>A chat message is a dictionary from field names to text (\<open>Dict[str, str]\<close>).\<close>

type_synonym message = "string \<rightharpoonup> string"

record context_optimizer =
  max_context_tokens :: int
  summary_tokens :: int

definition estimate_tokens :: "string \<Rightarrow> int" where
  "estimate_tokens text = int (length text) div 4"

text \<open>\<open>sum(self.estimate_tokens(msg.get('content', '')) for msg in history)\<close>\<close>

definition history_tokens :: "message list \<Rightarrow> int" where
  "history_tokens history =
     sum_list (map (\<lambda>msg. estimate_tokens (dict_get msg ''content'' '''')) history)"

definition compress_chat_history ::
  "context_optimizer \<Rightarrow> message list \<Rightarrow> string \<Rightarrow> message list" where
  "compress_chat_history self chat_history api_key =
     (if chat_history = [] then chat_history
      else
        let total_tokens = history_tokens chat_history in
        if total_tokens \<le> max_context_tokens self then chat_history
        else
          let recent_messages = last_n 10 chat_history;
              recent_tokens = history_tokens recent_messages
          in if recent_tokens \<le> max_context_tokens self then recent_messages
             else last_n 6 chat_history)"

text \<open>A turn as the callers build it: a role and a content field.\<close>

definition turn :: "string \<Rightarrow> string \<Rightarrow> message" where
  "turn r c = [''role'' \<mapsto> r, ''content'' \<mapsto> c]"

definition dialogue :: "nat \<Rightarrow> message list" where
  "dialogue n = concat (replicate n [turn ''human'' ''abcd'', turn ''ai'' ''efghijkl''])"

text \<open>\<open>', '.join(xs)\<close> and \<open>str(n)\<close> for a non-negative integer, as the f-strings use them.\<close>

fun join :: "string \<Rightarrow> string list \<Rightarrow> string" where
  "join sep [] = []"
| "join sep [x] = x"
| "join sep (x # y # ys) = x @ sep @ join sep (y # ys)"

definition digit_char :: "nat \<Rightarrow> char" where
  "digit_char d = ''0123456789'' ! d"

fun str_nat :: "nat \<Rightarrow> string" where
  "str_nat n = (if n < 10 then [digit_char n] else str_nat (n div 10) @ [digit_char (n mod 10)])"

declare str_nat.simps [simp del]

definition str_int :: "int \<Rightarrow> string" where
  "str_int i = (if i < 0 then CHR ''-'' # str_nat (nat (- i)) else str_nat (nat i))"

text \<open>
  The list comprehension \<open>[msg['content'] for msg in old_messages if msg.get('role') == 'human']\<close>:
  the subscript raises \<open>KeyError\<close> at the first selected message without a content field.
\<close>

fun user_queries_of :: "message list \<Rightarrow> py_error + string list" where
  "user_queries_of [] = Inr []"
| "user_queries_of (msg # rest) =
     (if msg ''role'' = Some ''human'' then
        (case dict_item msg ''content'' of
           Inl e \<Rightarrow> Inl e
         | Inr c \<Rightarrow> (case user_queries_of rest of Inl e \<Rightarrow> Inl e | Inr cs \<Rightarrow> Inr (c # cs)))
      else user_queries_of rest)"

definition summarize_old_context ::
  "context_optimizer \<Rightarrow> message list \<Rightarrow> string \<Rightarrow> py_error + string" where
  "summarize_old_context self old_messages api_key =
     (if old_messages = [] then Inr ''''
      else
        (case user_queries_of old_messages of
           Inl e \<Rightarrow> Inl e
         | Inr user_queries \<Rightarrow>
             if length user_queries \<le> 2 then
               Inr (''Previous topics discussed: '' @ join '', '' (take 2 user_queries))
             else
               Inr (''Previous conversation covered '' @ str_nat (length user_queries)
                    @ '' topics including: '' @ join '', '' (take 3 user_queries) @ ''...'')))"

text \<open>\<open>optimize_context\<close>: the split point is \<open>max(0, len(chat_history) - 10)\<close>.\<close>

definition optimize_context ::
  "context_optimizer \<Rightarrow> message list \<Rightarrow> string \<Rightarrow> py_error + (message list \<times> string)" where
  "optimize_context self chat_history api_key =
     (if chat_history = [] then Inr (chat_history, '''')
      else
        let total_tokens = history_tokens chat_history in
        if total_tokens \<le> max_context_tokens self then Inr (chat_history, '''')
        else
          let split_point = length chat_history - 10;
              old_messages = take split_point chat_history;
              recent_messages = drop split_point chat_history
          in (case summarize_old_context self old_messages api_key of
                Inl e \<Rightarrow> Inl e
              | Inr summary \<Rightarrow>
                  Inr (compress_chat_history self recent_messages api_key, summary)))"

section \<open>The key-value service and its client (src/cache/redis\_utils.py)\<close>

subsection \<open>JSON values and stored strings\<close>

text \<open>
  What \<open>json.loads\<close> returns and \<open>json.dumps\<close> accepts.  Floating-point numbers are
  abstracted to reals; an object is an association list looked up with \<open>map_of\<close>.
\<close>

datatype json =
    JNull
  | JBool bool
  | JNum real
  | JStr string
  | JArr "json list"
  | JObj "(string \<times> json) list"

text \<open>
  A string held by the service is represented by what the decoders of the code make of it:
  the JSON text of a value (\<open>json.loads\<close> returns that value), the base64 text of a pickled
  vector (\<open>pickle.loads(base64.b64decode(s))\<close> returns that vector), or any other text,
  on which both decoders raise.  The empty string is \<open>Blob []\<close>.
\<close>

datatype stored =
    Text json
  | Pickled "real list"
  | Blob string

definition json_dumps :: "json \<Rightarrow> stored" where
  "json_dumps v = Text v"

fun json_loads :: "stored \<Rightarrow> py_error + json" where
  "json_loads (Text v) = Inr v"
| "json_loads (Pickled v) = Inl ValueError"
| "json_loads (Blob s) = Inl ValueError"

text \<open>Truth value of a string (\<open>if cached_data:\<close>) and of a decoded value (\<open>x or []\<close>).\<close>

fun str_truthy :: "stored \<Rightarrow> bool" where
  "str_truthy (Blob s) = (s \<noteq> [])"
| "str_truthy (Text v) = True"
| "str_truthy (Pickled v) = True"

fun json_truthy :: "json \<Rightarrow> bool" where
  "json_truthy JNull = False"
| "json_truthy (JBool b) = b"
| "json_truthy (JNum x) = (x \<noteq> 0)"
| "json_truthy (JStr s) = (s \<noteq> [])"
| "json_truthy (JArr xs) = (xs \<noteq> [])"
| "json_truthy (JObj kvs) = (kvs \<noteq> [])"

text \<open>\<open>v[k]\<close> on a decoded value: \<open>KeyError\<close> on an object without the key, \<open>TypeError\<close>
  on a value that is no object.\<close>

fun json_item :: "json \<Rightarrow> string \<Rightarrow> py_error + json" where
  "json_item (JObj kvs) k = (case map_of kvs k of None \<Rightarrow> Inl KeyError | Some v \<Rightarrow> Inr v)"
| "json_item v k = Inl TypeError"

text \<open>\<open>xs.extend(ys)\<close>: only a list has the method.\<close>

fun list_extend :: "json \<Rightarrow> json list \<Rightarrow> py_error + json" where
  "list_extend (JArr xs) ys = Inr (JArr (xs @ ys))"
| "list_extend v ys = Inl AttributeError"

subsection \<open>The service\<close>

text \<open>
  Modelled from the spec: the external key-value cache service (Redis; no part of the
  repository), at its command boundary.  The service holds string values under string
  keys, each with a remaining time to live in seconds; "an entry with ttl \<open>\<le> 0\<close> is
  treated as not cached at all (never stored)": \<open>SETEX\<close> with a non-positive expiry is
  rejected with an error reply and changes nothing.  Entries expire at the
  service's own clock (\<open>elapse\<close>).  The service may be unreachable at any round trip:
  \<open>outage r n\<close> says that the \<open>n\<close>-th command sent to it fails with a connection error,
  and \<open>round_trips\<close> counts the commands sent so far.  The entries are an association
  list with distinct keys; \<open>KEYS\<close> enumerates in the order of that list.
\<close>

record redis_server =
  entries :: "(string \<times> stored \<times> nat) list"
  outage :: "nat \<Rightarrow> bool"
  round_trips :: nat

type_synonym 'a redis_io = "redis_server \<Rightarrow> (py_error + 'a) \<times> redis_server"

definition sent :: "redis_server \<Rightarrow> redis_server" where
  "sent r = r\<lparr>round_trips := Suc (round_trips r)\<rparr>"

definition lost :: "redis_server \<Rightarrow> bool" where
  "lost r = outage r (round_trips r)"

definition redis_ping :: "bool redis_io" where
  "redis_ping r = (if lost r then Inl ConnectionError else Inr True, sent r)"

definition redis_get :: "string \<Rightarrow> stored option redis_io" where
  "redis_get key r =
     (if lost r then Inl ConnectionError else Inr (map_option fst (map_of (entries r) key)),
      sent r)"

definition redis_setex :: "string \<Rightarrow> int \<Rightarrow> stored \<Rightarrow> bool redis_io" where
  "redis_setex key seconds val r =
     (if lost r then (Inl ConnectionError, sent r)
      else if seconds \<le> 0 then (Inl ResponseError, sent r)
      else (Inr True, sent (r\<lparr>entries := AList.update key (val, nat seconds) (entries r)\<rparr>)))"

definition redis_delete :: "string \<Rightarrow> nat redis_io" where
  "redis_delete key r =
     (if lost r then (Inl ConnectionError, sent r)
      else (Inr (if key \<in> fst ` set (entries r) then 1 else 0),
            sent (r\<lparr>entries := AList.delete key (entries r)\<rparr>)))"

text \<open>\<open>KEYS prefix*\<close>, for a prefix without glob characters.\<close>

definition has_prefix :: "string \<Rightarrow> string \<Rightarrow> bool" where
  "has_prefix p k = (take (length p) k = p)"

definition redis_keys :: "string \<Rightarrow> string list redis_io" where
  "redis_keys p r =
     (if lost r then Inl ConnectionError
      else Inr (filter (has_prefix p) (map fst (entries r))),
      sent r)"

text \<open>The passage of \<open>d\<close> seconds at the service's clock.\<close>

definition elapse :: "nat \<Rightarrow> redis_server \<Rightarrow> redis_server" where
  "elapse d r =
     r\<lparr>entries := map (\<lambda>(k, v, t). (k, v, t - d)) (filter (\<lambda>(k, v, t). d < t) (entries r))\<rparr>"

definition ttl_of :: "redis_server \<Rightarrow> string \<Rightarrow> nat option" where
  "ttl_of r key = map_option snd (map_of (entries r) key)"

definition value_of :: "redis_server \<Rightarrow> string \<Rightarrow> stored option" where
  "value_of r key = map_option fst (map_of (entries r) key)"

text \<open>
  \<open>timedelta(seconds = s)\<close> as \<open>setex\<close> receives it: the constructor raises
  \<open>OverflowError\<close> when the number of days exceeds 999999999 in magnitude; the client sends
  the whole number of seconds.
\<close>

definition timedelta :: "int \<Rightarrow> py_error + int" where
  "timedelta s =
     (if s div 86400 < - 999999999 \<or> 999999999 < s div 86400 then Inl OverflowError
      else Inr s)"

text \<open>\<open>try: body  except Exception: handler\<close>\<close>

definition try_except ::
  "('s \<Rightarrow> (py_error + 'a) \<times> 's) \<Rightarrow> (py_error \<Rightarrow> 's \<Rightarrow> (py_error + 'a) \<times> 's)
   \<Rightarrow> 's \<Rightarrow> (py_error + 'a) \<times> 's" where
  "try_except body handler s =
     (case body s of (Inl e, s') \<Rightarrow> handler e s' | (Inr v, s') \<Rightarrow> (Inr v, s'))"

definition returns :: "'a \<Rightarrow> 's \<Rightarrow> (py_error + 'a) \<times> 's" where
  "returns v s = (Inr v, s)"

subsection \<open>RedisCache\<close>

record redis_conn =
  host :: string
  port :: nat
  db :: nat

record redis_cache =
  redis_client :: "redis_conn option"

text \<open>The constructor pings once and keeps no client when the ping fails.\<close>

definition redis_cache_init :: "string \<Rightarrow> nat \<Rightarrow> nat \<Rightarrow> redis_server \<Rightarrow> redis_cache \<times> redis_server" where
  "redis_cache_init h p d r =
     (case redis_ping r of
        (Inl e, r') \<Rightarrow> (\<lparr>redis_client = None\<rparr>, r')
      | (Inr ok, r') \<Rightarrow> (\<lparr>redis_client = Some \<lparr>host = h, port = p, db = d\<rparr>\<rparr>, r'))"

definition is_connected :: "redis_cache \<Rightarrow> redis_server \<Rightarrow> bool \<times> redis_server" where
  "is_connected self r =
     (case redis_client self of
        None \<Rightarrow> (False, r)
      | Some client \<Rightarrow>
          (case redis_ping r of (Inl e, r') \<Rightarrow> (False, r') | (Inr ok, r') \<Rightarrow> (True, r')))"

text \<open>A value returned to Python: JSON \<open>null\<close> is \<open>None\<close>.\<close>

definition py_value :: "json \<Rightarrow> json option" where
  "py_value v = (if v = JNull then None else Some v)"

text \<open>
  The bodies of the \<open>try\<close> blocks.  The two reads (\<open>get_chat_history\<close>,
  \<open>get_rag_chain_config\<close>) differ only in the key, and so do the two writes: \<open>GET\<close> and
  \<open>json.loads\<close> of a non-empty answer, and \<open>SETEX\<close> of \<open>json.dumps\<close> with a
  \<open>timedelta\<close>.  An exception leaves the body as \<open>Inl\<close>; \<open>try_except\<close> around the body
  turns it into the value of the handler.
\<close>

definition load_cached :: "string \<Rightarrow> json option redis_io" where
  "load_cached key r =
     (case redis_get key r of
        (Inl e, r') \<Rightarrow> (Inl e, r')
      | (Inr None, r') \<Rightarrow> (Inr None, r')
      | (Inr (Some cached_data), r') \<Rightarrow>
          if str_truthy cached_data then
            (case json_loads cached_data of
               Inl e \<Rightarrow> (Inl e, r')
             | Inr v \<Rightarrow> (Inr (py_value v), r'))
          else (Inr None, r'))"

definition store_cached :: "string \<Rightarrow> int \<Rightarrow> json \<Rightarrow> bool redis_io" where
  "store_cached key seconds v r =
     (case timedelta seconds of
        Inl e \<Rightarrow> (Inl e, r)
      | Inr s \<Rightarrow>
          (case redis_setex key s (json_dumps v) r of
             (Inl e, r') \<Rightarrow> (Inl e, r')
           | (Inr ok, r') \<Rightarrow> (Inr True, r')))"

definition chat_history_key :: "string \<Rightarrow> string" where
  "chat_history_key session_id = ''chat_history:'' @ session_id"

definition get_chat_history :: "redis_cache \<Rightarrow> string \<Rightarrow> json option redis_io" where
  "get_chat_history self session_id r =
     (case is_connected self r of
        (False, r1) \<Rightarrow> (Inr None, r1)
      | (True, r1) \<Rightarrow>
          try_except (load_cached (chat_history_key session_id)) (\<lambda>e. returns None) r1)"

definition set_chat_history :: "redis_cache \<Rightarrow> string \<Rightarrow> json \<Rightarrow> int \<Rightarrow> bool redis_io" where
  "set_chat_history self session_id chat_history ttl_hours r =
     (case is_connected self r of
        (False, r1) \<Rightarrow> (Inr False, r1)
      | (True, r1) \<Rightarrow>
          try_except
            (store_cached (chat_history_key session_id) (3600 * ttl_hours) chat_history)
            (\<lambda>e. returns False) r1)"

definition chat_message :: "string \<Rightarrow> string \<Rightarrow> json" where
  "chat_message r c = JObj [(''role'', JStr r), (''content'', JStr c)]"

definition append_body :: "redis_cache \<Rightarrow> string \<Rightarrow> string \<Rightarrow> string \<Rightarrow> bool redis_io" where
  "append_body self session_id user_query ai_response r =
     (case get_chat_history self session_id r of
        (Inl e, r') \<Rightarrow> (Inl e, r')
      | (Inr got, r') \<Rightarrow>
          let current_history =
                (case got of
                   None \<Rightarrow> JArr []
                 | Some v \<Rightarrow> if json_truthy v then v else JArr [])
          in (case list_extend current_history
                     [chat_message ''user'' user_query, chat_message ''assistant'' ai_response] of
                Inl e \<Rightarrow> (Inl e, r')
              | Inr extended \<Rightarrow> set_chat_history self session_id extended 24 r'))"

definition append_to_chat_history ::
  "redis_cache \<Rightarrow> string \<Rightarrow> string \<Rightarrow> string \<Rightarrow> bool redis_io" where
  "append_to_chat_history self session_id user_query ai_response r =
     (case is_connected self r of
        (False, r1) \<Rightarrow> (Inr False, r1)
      | (True, r1) \<Rightarrow>
          try_except (append_body self session_id user_query ai_response)
            (\<lambda>e. returns False) r1)"

text \<open>
  The configuration cache is keyed by the first 16 hexadecimal digits of the SHA-256 of
  the credential; the digest function is a parameter.
\<close>

definition rag_chain_key :: "(string \<Rightarrow> string) \<Rightarrow> string \<Rightarrow> string \<Rightarrow> string" where
  "rag_chain_key sha256_hex api_key model =
     ''rag_chain:'' @ take 16 (sha256_hex api_key) @ '':'' @ model"

definition get_rag_chain_config ::
  "(string \<Rightarrow> string) \<Rightarrow> redis_cache \<Rightarrow> string \<Rightarrow> string \<Rightarrow> json option redis_io" where
  "get_rag_chain_config sha256_hex self api_key model r =
     (case is_connected self r of
        (False, r1) \<Rightarrow> (Inr None, r1)
      | (True, r1) \<Rightarrow>
          try_except (load_cached (rag_chain_key sha256_hex api_key model))
            (\<lambda>e. returns None) r1)"

definition set_rag_chain_config ::
  "(string \<Rightarrow> string) \<Rightarrow> redis_cache \<Rightarrow> string \<Rightarrow> string \<Rightarrow> json \<Rightarrow> int \<Rightarrow> bool redis_io" where
  "set_rag_chain_config sha256_hex self api_key model config ttl_minutes r =
     (case is_connected self r of
        (False, r1) \<Rightarrow> (Inr False, r1)
      | (True, r1) \<Rightarrow>
          try_except
            (store_cached (rag_chain_key sha256_hex api_key model) (60 * ttl_minutes) config)
            (\<lambda>e. returns False) r1)"

definition delete_cached :: "string \<Rightarrow> bool redis_io" where
  "delete_cached key r =
     (case redis_delete key r of
        (Inl e, r') \<Rightarrow> (Inl e, r')
      | (Inr n, r') \<Rightarrow> (Inr True, r'))"

definition invalidate_chat_history :: "redis_cache \<Rightarrow> string \<Rightarrow> bool redis_io" where
  "invalidate_chat_history self session_id r =
     (case is_connected self r of
        (False, r1) \<Rightarrow> (Inr False, r1)
      | (True, r1) \<Rightarrow>
          try_except (delete_cached (chat_history_key session_id)) (\<lambda>e. returns False) r1)"

text \<open>Example states: a client of a service that answers every command, and of one that
  answers none.\<close>

definition local_client :: redis_cache where
  "local_client = \<lparr>redis_client = Some \<lparr>host = ''localhost'', port = 6379, db = 0\<rparr>\<rparr>"

definition redis_up :: redis_server where
  "redis_up = \<lparr>entries = [], outage = (\<lambda>n. False), round_trips = 0\<rparr>"

definition redis_down :: redis_server where
  "redis_down = \<lparr>entries = [], outage = (\<lambda>n. True), round_trips = 0\<rparr>"

definition greeting :: json where
  "greeting = JArr [chat_message ''user'' ''hi'', chat_message ''assistant'' ''hello'']"

definition hour_old :: redis_server where
  "hour_old = elapse 1800 (snd (set_chat_history local_client ''s1'' greeting 1 redis_up))"

section \<open>SemanticCache (src/cache/semantic\_cache.py)\<close>

subsection \<open>Vectors and cosine similarity\<close>

text \<open>
  Modelled from the spec: cosine similarity is the "dot product of two vectors divided by
  the product of their magnitudes".  The code calls the library routine
  \<open>cosine_similarity([x], [y])[0][0]\<close>, which normalises each row by its Euclidean norm
  (a zero norm is replaced by 1), takes the dot product, and raises \<open>ValueError\<close> on rows
  of different or zero length.  Floating-point numbers are abstracted to reals.
\<close>

type_synonym vector = "real list"

definition l2_norm :: "vector \<Rightarrow> real" where
  "l2_norm v = sqrt (\<Sum>x\<leftarrow>v. x * x)"

definition normalize :: "vector \<Rightarrow> vector" where
  "normalize v = (let n = l2_norm v; d = (if n = 0 then 1 else n) in map (\<lambda>x. x / d) v)"

definition dot :: "vector \<Rightarrow> vector \<Rightarrow> real" where
  "dot x y = (\<Sum>(a, b)\<leftarrow>zip x y. a * b)"

definition cosine_similarity :: "vector \<Rightarrow> vector \<Rightarrow> py_error + real" where
  "cosine_similarity x y =
     (if x = [] \<or> length x \<noteq> length y then Inl ValueError
      else Inr (dot (normalize x) (normalize y)))"

text \<open>
  \<open>np.array(v)\<close> of a decoded value, as far as \<open>cosine_similarity\<close> accepts it: a list of
  numbers gives a vector; on anything else the similarity computation raises.
\<close>

fun json_number :: "json \<Rightarrow> real option" where
  "json_number (JNum x) = Some x"
| "json_number v = None"

fun np_array :: "json \<Rightarrow> py_error + vector" where
  "np_array (JArr xs) =
     (if list_all (\<lambda>x. json_number x \<noteq> None) xs then Inr (map (\<lambda>x. the (json_number x)) xs)
      else Inl ValueError)"
| "np_array v = Inl ValueError"

text \<open>\<open>pickle.loads(base64.b64decode(s))\<close> and its inverse.\<close>

fun unpickle :: "stored \<Rightarrow> py_error + vector" where
  "unpickle (Pickled v) = Inr v"
| "unpickle (Text v) = Inl ValueError"
| "unpickle (Blob s) = Inl ValueError"

definition pickle :: "vector \<Rightarrow> stored" where
  "pickle v = Pickled v"

subsection \<open>State and collaborators\<close>

text \<open>
  The cache object.  \<open>embedding_model\<close> holds the credential with which the embedding
  client was first built (\<open>_get_embedding_model\<close> builds it once and keeps it).
\<close>

record semantic_cache =
  similarity_threshold :: real
  max_history_length :: int
  embeddings_cache :: "string \<rightharpoonup> vector"
  embedding_model :: "string option"

text \<open>
  The collaborators that are no part of the repository are parameters: the two digest
  functions, and the embedding provider, which maps the credential of the client and a
  text to a vector or fails.
\<close>

record providers =
  md5_hex :: "string \<Rightarrow> string"
  sha256_hex :: "string \<Rightarrow> string"
  embed_query :: "string \<Rightarrow> string \<Rightarrow> py_error + vector"

type_synonym 'a cache_io =
  "semantic_cache \<Rightarrow> redis_server \<Rightarrow> (py_error + 'a) \<times> semantic_cache \<times> redis_server"

definition get_embedding_model :: "semantic_cache \<Rightarrow> string \<Rightarrow> string \<times> semantic_cache" where
  "get_embedding_model self api_key =
     (case embedding_model self of
        None \<Rightarrow> (api_key, self\<lparr>embedding_model := Some api_key\<rparr>)
      | Some m \<Rightarrow> (m, self))"

definition embedding_key :: "string \<Rightarrow> string" where
  "embedding_key query_hash = ''embedding:'' @ query_hash"

definition semantic_key :: "string \<Rightarrow> string" where
  "semantic_key query_hash = ''semantic_cache:'' @ query_hash"

text \<open>The last part of \<open>_get_query_embedding\<close>: ask the provider and store in both tiers.
  Every exception of this part is caught and gives \<open>None\<close>.\<close>

definition generate_embedding ::
  "providers \<Rightarrow> redis_cache \<Rightarrow> string \<Rightarrow> string \<Rightarrow> vector option cache_io" where
  "generate_embedding env rc query api_key self r =
     (let query_hash = md5_hex env query;
          (model, self1) = get_embedding_model self api_key
      in case embed_query env model query of
           Inl e \<Rightarrow> (Inr None, self1, r)
         | Inr embedding \<Rightarrow>
             let self2 = self1\<lparr>embeddings_cache := (embeddings_cache self1)(query_hash \<mapsto> embedding)\<rparr>
             in (case is_connected rc r of
                   (False, r1) \<Rightarrow> (Inr (Some embedding), self2, r1)
                 | (True, r1) \<Rightarrow>
                     (case timedelta (3600 * 24) of
                        Inl e \<Rightarrow> (Inr None, self2, r1)
                      | Inr s \<Rightarrow>
                          (case redis_setex (embedding_key query_hash) s (pickle embedding) r1 of
                             (Inl e, r2) \<Rightarrow> (Inr None, self2, r2)
                           | (Inr ok, r2) \<Rightarrow> (Inr (Some embedding), self2, r2)))))"

text \<open>
  \<open>_get_query_embedding\<close>: the local map, then the service, then the provider.  The read
  of the service is outside every \<open>try\<close>, so a connection lost after the probe raises.
\<close>

definition get_query_embedding ::
  "providers \<Rightarrow> redis_cache \<Rightarrow> string \<Rightarrow> string \<Rightarrow> vector option cache_io" where
  "get_query_embedding env rc query api_key self r =
     (let query_hash = md5_hex env query in
      case embeddings_cache self query_hash of
        Some embedding \<Rightarrow> (Inr (Some embedding), self, r)
      | None \<Rightarrow>
          (case is_connected rc r of
             (False, r1) \<Rightarrow> generate_embedding env rc query api_key self r1
           | (True, r1) \<Rightarrow>
               (case redis_get (embedding_key query_hash) r1 of
                  (Inl e, r2) \<Rightarrow> (Inl e, self, r2)
                | (Inr None, r2) \<Rightarrow> generate_embedding env rc query api_key self r2
                | (Inr (Some cached_embedding), r2) \<Rightarrow>
                    if str_truthy cached_embedding then
                      (case unpickle cached_embedding of
                         Inl e \<Rightarrow> generate_embedding env rc query api_key self r2
                       | Inr embedding \<Rightarrow>
                           (Inr (Some embedding),
                            self\<lparr>embeddings_cache :=
                                   (embeddings_cache self)(query_hash \<mapsto> embedding)\<rparr>,
                            r2))
                    else generate_embedding env rc query api_key self r2)))"

subsection \<open>The similarity search\<close>

record cache_match =
  response :: json
  similarity :: real
  original_query :: json
  timestamp :: json

text \<open>
  The body of the loop for one non-empty cached string, with the loop variables
  \<open>(best_match, best_similarity)\<close>.  Every exception is caught by the inner
  \<open>try\<close> and leaves the variables as they are at that point: \<open>best_similarity\<close> is
  assigned before the dictionary of the match is built, so a record without a response,
  query or timestamp raises after the assignment.
\<close>

definition process_entry ::
  "real \<Rightarrow> vector \<Rightarrow> stored \<Rightarrow> cache_match option \<times> real \<Rightarrow> cache_match option \<times> real" where
  "process_entry threshold query_embedding cached_data acc =
     (case acc of (best_match, best_similarity) \<Rightarrow>
      (case json_loads cached_data of
         Inl e \<Rightarrow> acc
       | Inr cache_entry \<Rightarrow>
      (case json_item cache_entry ''embedding'' of
         Inl e \<Rightarrow> acc
       | Inr emb \<Rightarrow>
      (case np_array emb of
         Inl e \<Rightarrow> acc
       | Inr cached_embedding \<Rightarrow>
      (case cosine_similarity query_embedding cached_embedding of
         Inl e \<Rightarrow> acc
       | Inr sim \<Rightarrow>
           if sim > threshold \<and> sim > best_similarity then
             (case json_item cache_entry ''response'' of
                Inl e \<Rightarrow> (best_match, sim)
              | Inr resp \<Rightarrow>
             (case json_item cache_entry ''query'' of
                Inl e \<Rightarrow> (best_match, sim)
              | Inr q \<Rightarrow>
             (case json_item cache_entry ''timestamp'' of
                Inl e \<Rightarrow> (best_match, sim)
              | Inr ts \<Rightarrow>
                  (Some \<lparr>response = resp, similarity = sim, original_query = q,
                          timestamp = ts\<rparr>, sim))))
           else acc)))))"

text \<open>The loop over the keys: one \<open>GET\<close> per key; a failing \<open>GET\<close> leaves the loop.\<close>

fun scan ::
  "real \<Rightarrow> vector \<Rightarrow> string list \<Rightarrow> cache_match option \<times> real
   \<Rightarrow> (cache_match option \<times> real) redis_io" where
  "scan threshold qe [] acc r = (Inr acc, r)"
| "scan threshold qe (key # keys) acc r =
     (case redis_get key r of
        (Inl e, r') \<Rightarrow> (Inl e, r')
      | (Inr None, r') \<Rightarrow> scan threshold qe keys acc r'
      | (Inr (Some cached_data), r') \<Rightarrow>
          scan threshold qe keys
            (if str_truthy cached_data then process_entry threshold qe cached_data acc else acc)
            r')"

definition search :: "real \<Rightarrow> vector \<Rightarrow> cache_match option redis_io" where
  "search threshold qe r =
     (case redis_keys ''semantic_cache:'' r of
        (Inl e, r') \<Rightarrow> (Inl e, r')
      | (Inr cache_keys, r') \<Rightarrow>
          (case scan threshold qe cache_keys (None, 0) r' of
             (Inl e, r'') \<Rightarrow> (Inl e, r'')
           | (Inr (best_match, best_similarity), r'') \<Rightarrow> (Inr best_match, r'')))"

definition find_similar_cached_response ::
  "providers \<Rightarrow> redis_cache \<Rightarrow> string \<Rightarrow> string \<Rightarrow> cache_match option cache_io" where
  "find_similar_cached_response env rc query api_key self r =
     (case get_query_embedding env rc query api_key self r of
        (Inl e, self1, r1) \<Rightarrow> (Inl e, self1, r1)
      | (Inr None, self1, r1) \<Rightarrow> (Inr None, self1, r1)
      | (Inr (Some query_embedding), self1, r1) \<Rightarrow>
          (case is_connected rc r1 of
             (False, r2) \<Rightarrow> (Inr None, self1, r2)
           | (True, r2) \<Rightarrow>
               (case try_except (search (similarity_threshold self1) query_embedding)
                       (\<lambda>e. returns None) r2 of
                  (res, r3) \<Rightarrow> (res, self1, r3))))"

text \<open>\<open>cache_response\<close>; the time stamp \<open>datetime.now().isoformat()\<close> is a parameter.\<close>

definition cache_entry_of ::
  "providers \<Rightarrow> string \<Rightarrow> string \<Rightarrow> vector \<Rightarrow> string option \<Rightarrow> string \<Rightarrow> string \<Rightarrow> json" where
  "cache_entry_of env query resp embedding context_hash now api_key =
     JObj [(''query'', JStr query),
           (''response'', JStr resp),
           (''embedding'', JArr (map JNum embedding)),
           (''context_hash'', (case context_hash of None \<Rightarrow> JNull | Some h \<Rightarrow> JStr h)),
           (''timestamp'', JStr now),
           (''api_key_hash'', JStr (take 16 (sha256_hex env api_key)))]"

definition cache_response ::
  "providers \<Rightarrow> redis_cache \<Rightarrow> string \<Rightarrow> string \<Rightarrow> string \<Rightarrow> string option \<Rightarrow> int \<Rightarrow> string
   \<Rightarrow> bool cache_io" where
  "cache_response env rc query resp api_key context_hash ttl_hours now self r =
     (case get_query_embedding env rc query api_key self r of
        (Inl e, self1, r1) \<Rightarrow> (Inl e, self1, r1)
      | (Inr None, self1, r1) \<Rightarrow> (Inr False, self1, r1)
      | (Inr (Some query_embedding), self1, r1) \<Rightarrow>
          (let cache_entry = cache_entry_of env query resp query_embedding context_hash now api_key;
               cache_key = semantic_key (md5_hex env query)
           in case is_connected rc r1 of
                (False, r2) \<Rightarrow> (Inr False, self1, r2)
              | (True, r2) \<Rightarrow>
                  (case store_cached cache_key (3600 * ttl_hours) cache_entry r2 of
                     (Inl e, r3) \<Rightarrow> (Inr False, self1, r3)
                   | (Inr ok, r3) \<Rightarrow> (Inr True, self1, r3))))"

text \<open>
  The match that the loop body builds from a cached string when nothing raises: the
  record decodes to an object with an embedding comparable to the query's, a response, a
  query and a time stamp.  Every record written by \<open>cache_response\<close> is of this kind.
\<close>

definition record_match :: "vector \<Rightarrow> stored \<Rightarrow> cache_match option" where
  "record_match qe cached_data =
     (case json_loads cached_data of
        Inl e \<Rightarrow> None
      | Inr cache_entry \<Rightarrow>
     (case json_item cache_entry ''embedding'' of
        Inl e \<Rightarrow> None
      | Inr emb \<Rightarrow>
     (case np_array emb of
        Inl e \<Rightarrow> None
      | Inr cached_embedding \<Rightarrow>
     (case cosine_similarity qe cached_embedding of
        Inl e \<Rightarrow> None
      | Inr sim \<Rightarrow>
     (case json_item cache_entry ''response'' of
        Inl e \<Rightarrow> None
      | Inr resp \<Rightarrow>
     (case json_item cache_entry ''query'' of
        Inl e \<Rightarrow> None
      | Inr q \<Rightarrow>
     (case json_item cache_entry ''timestamp'' of
        Inl e \<Rightarrow> None
      | Inr ts \<Rightarrow>
          Some \<lparr>response = resp, similarity = sim, original_query = q, timestamp = ts\<rparr>)))))))"

text \<open>The records of the semantic-cache namespace, in the order of enumeration.\<close>

definition semantic_records :: "redis_server \<Rightarrow> stored list" where
  "semantic_records r =
     map (\<lambda>e. fst (snd e)) (filter (\<lambda>e. has_prefix ''semantic_cache:'' (fst e)) (entries r))"

section \<open>Connection manager (src/database/connection\_manager.py)\<close>

subsection \<open>SQLiteConnectionPool\<close>

text \<open>
  A connection object is known by its identity, a number; \<open>next_conn\<close> is the identity of
  the object that the next successful \<open>sqlite3.connect\<close> creates.  The thread-local
  storage \<open>_local\<close> is a map from the calling worker to its \<open>connection\<close> attribute.
\<close>

type_synonym worker_id = nat
type_synonym connection = nat

record pool_stats =
  connections_created :: nat
  connections_reused :: nat
  active_connections :: nat

record sqlite_pool =
  db_path :: string
  max_connections :: int
  local_connection :: "worker_id \<rightharpoonup> connection"
  pool :: "connection list"
  stats :: pool_stats
  next_conn :: connection

definition sqlite_pool_init :: "string \<Rightarrow> int \<Rightarrow> sqlite_pool" where
  "sqlite_pool_init path limit =
     \<lparr>db_path = path, max_connections = limit, local_connection = Map.empty, pool = [],
      stats = \<lparr>connections_created = 0, connections_reused = 0, active_connections = 0\<rparr>,
      next_conn = 0\<rparr>"

text \<open>
  \<open>get_connection\<close>, called by worker \<open>tid\<close>; \<open>connect_ok\<close> says whether
  \<open>sqlite3.connect\<close> would succeed at this call (its failure propagates).  \<open>list.pop()\<close>
  takes the last element of the free list.
\<close>

definition get_connection ::
  "sqlite_pool \<Rightarrow> worker_id \<Rightarrow> bool \<Rightarrow> (py_error + connection) \<times> sqlite_pool" where
  "get_connection self tid connect_ok =
     (case local_connection self tid of
        Some conn \<Rightarrow>
          (Inr conn,
           self\<lparr>stats := (stats self)\<lparr>connections_reused := connections_reused (stats self) + 1\<rparr>\<rparr>)
      | None \<Rightarrow>
          if pool self \<noteq> [] then
            (let conn = last (pool self) in
             (Inr conn,
              self\<lparr>pool := butlast (pool self),
                   local_connection := (local_connection self)(tid \<mapsto> conn),
                   stats := (stats self)
                     \<lparr>connections_reused := connections_reused (stats self) + 1,
                      active_connections := active_connections (stats self) + 1\<rparr>\<rparr>))
          else if connect_ok then
            (let conn = next_conn self in
             (Inr conn,
              self\<lparr>local_connection := (local_connection self)(tid \<mapsto> conn),
                   stats := (stats self)
                     \<lparr>connections_created := connections_created (stats self) + 1,
                      active_connections := active_connections (stats self) + 1\<rparr>,
                   next_conn := Suc conn\<rparr>))
          else (Inl OperationalError, self))"

text \<open>
  A history of calls by workers, one call after the other.  The thread-local storage is
  private to its worker and the free list is only touched under the pool lock, so calls
  of different workers interleave as whole calls as far as the connections are concerned.
\<close>

fun run_pool ::
  "sqlite_pool \<Rightarrow> (worker_id \<times> bool) list \<Rightarrow> (py_error + connection) list \<times> sqlite_pool" where
  "run_pool self [] = ([], self)"
| "run_pool self ((tid, connect_ok) # calls) =
     (case get_connection self tid connect_ok of
        (res, self') \<Rightarrow>
          (case run_pool self' calls of (ress, self'') \<Rightarrow> (res # ress, self'')))"

text \<open>The connection objects among the results of a history.\<close>

definition returned :: "(py_error + connection) list \<Rightarrow> connection set" where
  "returned ress = {c. Inr c \<in> set ress}"

subsection \<open>ChromaConnectionCache\<close>

text \<open>
  A vectorstore handle is known by its identity.  The collaborators that are no part of
  the repository are parameters: \<open>py_hash\<close> is Python's \<open>hash\<close> on strings, and
  \<open>factory n api_key\<close> is the outcome of building the embedding client and the
  vectorstore (\<open>OpenAIEmbeddings\<close>, \<open>os.makedirs\<close>, \<open>Chroma\<close>) with the real credential
  when \<open>n\<close> such attempts have been made before: a fresh handle, or an exception.
\<close>

type_synonym vectorstore = nat

record chroma_env =
  py_hash :: "string \<Rightarrow> int"
  factory :: "nat \<Rightarrow> string \<Rightarrow> py_error + vectorstore"

text \<open>
  The cache object.  \<open>factory_calls\<close> is a history variable, no field of the class: the
  credentials with which the factory has been invoked so far, each with the handle it
  gave (\<open>None\<close> for a failure).
\<close>

record chroma_cache =
  cache_ttl_minutes :: int
  connections :: "string \<rightharpoonup> vectorstore \<times> real"
  factory_calls :: "(string \<times> vectorstore option) list"

definition chroma_cache_init :: "int \<Rightarrow> chroma_cache" where
  "chroma_cache_init ttl = \<lparr>cache_ttl_minutes = ttl, connections = Map.empty, factory_calls = []\<rparr>"

definition cache_key :: "chroma_env \<Rightarrow> string \<Rightarrow> string" where
  "cache_key env api_key = ''chroma_'' @ str_int (py_hash env api_key)"

text \<open>The first block under the lock, at time \<open>now\<close>: return a live entry, drop an expired
  one.\<close>

definition check_cached :: "chroma_cache \<Rightarrow> string \<Rightarrow> real \<Rightarrow> vectorstore option \<times> chroma_cache" where
  "check_cached self key now =
     (case connections self key of
        None \<Rightarrow> (None, self)
      | Some (vs, ts) \<Rightarrow>
          if now - ts < real_of_int (cache_ttl_minutes self * 60) then (Some vs, self)
          else (None, self\<lparr>connections := (connections self)(key := None)\<rparr>))"

text \<open>The creation, outside the lock.\<close>

definition create_vectorstore ::
  "chroma_env \<Rightarrow> string \<Rightarrow> chroma_cache \<Rightarrow> (py_error + vectorstore) \<times> chroma_cache" where
  "create_vectorstore env api_key self =
     (case factory env (length (factory_calls self)) api_key of
        Inl e \<Rightarrow> (Inl e, self\<lparr>factory_calls := factory_calls self @ [(api_key, None)]\<rparr>)
      | Inr vs \<Rightarrow> (Inr vs, self\<lparr>factory_calls := factory_calls self @ [(api_key, Some vs)]\<rparr>))"

text \<open>The second block under the lock, at time \<open>now\<close>.\<close>

definition store_vectorstore :: "chroma_cache \<Rightarrow> string \<Rightarrow> vectorstore \<Rightarrow> real \<Rightarrow> chroma_cache" where
  "store_vectorstore self key vs now = self\<lparr>connections := (connections self)(key \<mapsto> (vs, now))\<rparr>"

text \<open>\<open>get_vectorstore\<close> run by one worker without interference; \<open>now\<close> and \<open>now'\<close> are
  the two readings of \<open>time.time()\<close>.\<close>

definition get_vectorstore ::
  "chroma_env \<Rightarrow> chroma_cache \<Rightarrow> string \<Rightarrow> real \<Rightarrow> real \<Rightarrow> vectorstore option \<times> chroma_cache" where
  "get_vectorstore env self api_key now now' =
     (if api_key = [] then (None, self)
      else
        let key = cache_key env api_key in
        case check_cached self key now of
          (Some vs, self1) \<Rightarrow> (Some vs, self1)
        | (None, self1) \<Rightarrow>
            (case create_vectorstore env api_key self1 of
               (Inl e, self2) \<Rightarrow> (None, self2)
             | (Inr vs, self2) \<Rightarrow> (Some vs, store_vectorstore self2 key vs now')))"

definition clear_cache :: "chroma_cache \<Rightarrow> chroma_cache" where
  "clear_cache self = self\<lparr>connections := Map.empty\<rparr>"

text \<open>A history of calls of \<open>get_vectorstore\<close> that do not overlap.\<close>

fun run_calls ::
  "chroma_env \<Rightarrow> chroma_cache \<Rightarrow> (string \<times> real \<times> real) list \<Rightarrow> chroma_cache" where
  "run_calls env self [] = self"
| "run_calls env self ((api_key, now, now') # calls) =
     run_calls env (snd (get_vectorstore env self api_key now now')) calls"

subsection \<open>Workers that run \<open>get_vectorstore\<close> concurrently\<close>

text \<open>
  The lock makes each of the two \<open>with self._lock\<close> blocks atomic; the creation between
  them runs without the lock.  A worker is therefore at one of four points of
  \<open>get_vectorstore\<close>, and a step of a worker is one of the three stages.
\<close>

datatype worker =
    Calling string
  | Creating string
  | Storing string vectorstore
  | Done "vectorstore option"

definition worker_step ::
  "chroma_env \<Rightarrow> real \<Rightarrow> worker \<Rightarrow> chroma_cache \<Rightarrow> worker \<times> chroma_cache" where
  "worker_step env now w self =
     (case w of
        Calling api_key \<Rightarrow>
          if api_key = [] then (Done None, self)
          else
            (case check_cached self (cache_key env api_key) now of
               (Some vs, self1) \<Rightarrow> (Done (Some vs), self1)
             | (None, self1) \<Rightarrow> (Creating api_key, self1))
      | Creating api_key \<Rightarrow>
          (case create_vectorstore env api_key self of
             (Inl e, self2) \<Rightarrow> (Done None, self2)
           | (Inr vs, self2) \<Rightarrow> (Storing api_key vs, self2))
      | Storing api_key vs \<Rightarrow>
          (Done (Some vs), store_vectorstore self (cache_key env api_key) vs now)
      | Done res \<Rightarrow> (Done res, self))"

text \<open>A schedule names, step by step, the worker that moves and the time of the step.\<close>

fun run_schedule ::
  "chroma_env \<Rightarrow> worker list \<Rightarrow> chroma_cache \<Rightarrow> (nat \<times> real) list \<Rightarrow> worker list \<times> chroma_cache" where
  "run_schedule env ws self [] = (ws, self)"
| "run_schedule env ws self ((i, now) # sched) =
     (if i < length ws then
        (case worker_step env now (ws ! i) self of
           (w', self') \<Rightarrow> run_schedule env (ws[i := w']) self' sched)
      else run_schedule env ws self sched)"

text \<open>The successful creations for a fingerprint among the entries of the history.\<close>

definition creations :: "chroma_env \<Rightarrow> string \<Rightarrow> (string \<times> vectorstore option) list \<Rightarrow> nat" where
  "creations env key hist =
     length (filter (\<lambda>c. cache_key env (fst c) = key \<and> snd c \<noteq> None) hist)"

text \<open>Example collaborators: every credential is valid, and the \<open>n\<close>-th attempt gives the
  handle \<open>n\<close>; no credential is valid at the first attempt.\<close>

definition fresh_env :: chroma_env where
  "fresh_env = \<lparr>py_hash = (\<lambda>s. int (length s)), factory = (\<lambda>n k. Inr n)\<rparr>"

definition late_env :: chroma_env where
  "late_env =
     \<lparr>py_hash = (\<lambda>s. int (length s)),
      factory = (\<lambda>n k. if n < 1 then Inl ValueError else Inr n)\<rparr>"

text \<open>Three calls with one credential that do not overlap, within one expiry window.\<close>

definition three_calls :: "(string \<times> real \<times> real) list" where
  "three_calls = [(''sk-live'', 0, 1), (''sk-live'', 2, 3), (''sk-live'', 100, 101)]"

section \<open>Auxiliary notions for the proofs\<close>

text \<open>The invariant of the loop variables of the similarity search.\<close>

definition plausible :: "real \<Rightarrow> cache_match option \<times> real \<Rightarrow> bool" where
  "plausible thr acc =
     (0 \<le> snd acc \<and>
      (case fst acc of None \<Rightarrow> True
       | Some m \<Rightarrow> 0 < similarity m \<and> thr < similarity m \<and> similarity m \<le> snd acc))"

text \<open>The loop body on a record that yields a match, and on the answer of a \<open>GET\<close>.\<close>

definition step :: "real \<Rightarrow> cache_match option \<times> real \<Rightarrow> cache_match \<Rightarrow> cache_match option \<times> real" where
  "step thr acc m =
     (if thr < similarity m \<and> snd acc < similarity m then (Some m, similarity m) else acc)"

definition visit :: "real \<Rightarrow> vector \<Rightarrow> cache_match option \<times> real \<Rightarrow> stored option \<Rightarrow> cache_match option \<times> real" where
  "visit thr qe acc v =
     (case v of None \<Rightarrow> acc
      | Some s \<Rightarrow> if str_truthy s then process_entry thr qe s acc else acc)"

text \<open>What the resolution of an embedding leaves untouched at the service: the outage
  schedule, the records of the semantic-cache namespace, and the distinctness of keys.\<close>

definition same_semantic :: "redis_server \<Rightarrow> redis_server \<Rightarrow> bool" where
  "same_semantic r r' =
     (outage r' = outage r \<and> round_trips r \<le> round_trips r'
      \<and> semantic_records r' = semantic_records r
      \<and> (distinct (map fst (entries r)) \<longrightarrow> distinct (map fst (entries r'))))"

text \<open>Example states of the semantic cache: two records with orthogonal embeddings, and a
  cache object that has the embedding of one query in its local map.\<close>

definition demo_env :: providers where
  "demo_env = \<lparr>md5_hex = id, sha256_hex = id, embed_query = (\<lambda>k q. Inl ConnectionError)\<rparr>"

definition demo_cache :: "real \<Rightarrow> semantic_cache" where
  "demo_cache thr =
     \<lparr>similarity_threshold = thr, max_history_length = 20,
      embeddings_cache = [''what is RAG?'' \<mapsto> [1, 0]], embedding_model = None\<rparr>"

definition demo_record :: "string \<Rightarrow> string \<Rightarrow> vector \<Rightarrow> stored" where
  "demo_record q a v =
     json_dumps (cache_entry_of demo_env q a v None ''2024-01-01T00:00:00'' ''key'')"

definition demo_store :: redis_server where
  "demo_store =
     \<lparr>entries =
        [(semantic_key ''weather?'', demo_record ''weather?'' ''sunny'' [0, 1], 21600),
         (chat_history_key ''s1'', json_dumps greeting, 86400),
         (semantic_key ''what's RAG?'',
          demo_record ''what's RAG?'' ''retrieval augmented generation'' [2, 0], 21600)],
      outage = (\<lambda>n. False), round_trips = 0\<rparr>"

definition orthogonal_store :: redis_server where
  "orthogonal_store =
     \<lparr>entries = [(semantic_key ''weather?'', demo_record ''weather?'' ''sunny'' [0, 1], 21600)],
      outage = (\<lambda>n. False), round_trips = 0\<rparr>"

definition weather_match :: cache_match where
  "weather_match = \<lparr>response = JStr ''sunny'', similarity = 0,
     original_query = JStr ''weather?'', timestamp = JStr ''2024-01-01T00:00:00''\<rparr>"

definition rag_match :: cache_match where
  "rag_match = \<lparr>response = JStr ''retrieval augmented generation'', similarity = 1,
     original_query = JStr ''what's RAG?'', timestamp = JStr ''2024-01-01T00:00:00''\<rparr>"


text \<open>The invariant of the pool: no more connections created than workers served.\<close>

definition pool_inv :: "sqlite_pool \<Rightarrow> bool" where
  "pool_inv self = (finite (dom (local_connection self))
      \<and> connections_created (stats self) \<le> card (dom (local_connection self)))"


text \<open>Five workers calling in turn, some of them repeatedly.\<close>

definition five_workers :: "(worker_id \<times> bool) list" where
  "five_workers =
     [(0, True), (1, True), (0, True), (2, True), (3, True), (4, True), (1, True), (4, True),
      (0, True)]"

section \<open>Properties of the context compressor\<close>

lemma history_tokens_Nil: "history_tokens [] = 0"
  by (simp add: history_tokens_def)

text \<open>
  Claim C5.  For every history and token budget, \<open>compress_chat_history\<close> returns the
  history unchanged when its estimate (length of each turn's content divided by 4,
  rounded down, summed over the turns) is within the budget; otherwise the last 10 turns
  when the estimate of that window is within the budget; otherwise the last 6 turns.
  There is no further stage.  The last \<open>n\<close> turns of a shorter history are the whole
  history.
\<close>

theorem compress_chat_history_two_stages:
  fixes self :: context_optimizer and h :: "message list"
  defines "B \<equiv> max_context_tokens self"
  defines "est \<equiv> \<lambda>ms :: message list.
    (\<Sum>m\<leftarrow>ms. int (length (case m ''content'' of None \<Rightarrow> [] | Some c \<Rightarrow> c)) div 4)"
  shows "(est h \<le> B \<longrightarrow> compress_chat_history self h k = h)
       \<and> (B < est h \<and> est (drop (length h - 10) h) \<le> B \<longrightarrow>
            compress_chat_history self h k = drop (length h - 10) h)
       \<and> (B < est h \<and> B < est (drop (length h - 10) h) \<longrightarrow>
            compress_chat_history self h k = drop (length h - 6) h)"
proof -
  have est: "est ms = history_tokens ms" for ms
    unfolding est_def history_tokens_def estimate_tokens_def dict_get_def
    by (rule arg_cong [where f = sum_list]) (simp split: option.split)
  show ?thesis
    unfolding est B_def
    by (cases "h = []")
       (simp_all add: compress_chat_history_def last_n_def Let_def history_tokens_Nil)
qed


theorem compress_chat_history_two_stages_witness:
  "history_tokens (dialogue 6) = 18
   \<and> compress_chat_history \<lparr>max_context_tokens = 18, summary_tokens = 500\<rparr> (dialogue 6) ''key''
       = dialogue 6
   \<and> history_tokens (dialogue 5) = 15
   \<and> compress_chat_history \<lparr>max_context_tokens = 15, summary_tokens = 500\<rparr> (dialogue 6) ''key''
       = dialogue 5
   \<and> compress_chat_history \<lparr>max_context_tokens = 14, summary_tokens = 500\<rparr> (dialogue 6) ''key''
       = dialogue 3"
  using
    compress_chat_history_two_stages
      [of "dialogue 6" "\<lparr>max_context_tokens = 18, summary_tokens = 500\<rparr>" "''key''"]
    compress_chat_history_two_stages
      [of "dialogue 6" "\<lparr>max_context_tokens = 15, summary_tokens = 500\<rparr>" "''key''"]
    compress_chat_history_two_stages
      [of "dialogue 6" "\<lparr>max_context_tokens = 14, summary_tokens = 500\<rparr>" "''key''"]
  by (simp add: dialogue_def turn_def history_tokens_def estimate_tokens_def dict_get_def
        eval_nat_numeral)

section \<open>Properties of the summary of older turns\<close>

lemma user_queries_of_filter:
  "\<forall>m \<in> set ms. m ''role'' = Some ''human'' \<longrightarrow> m ''content'' \<noteq> None \<Longrightarrow>
   user_queries_of ms =
     Inr (map (\<lambda>m. dict_get m ''content'' '''') (filter (\<lambda>m. m ''role'' = Some ''human'') ms))"
  by (induction ms) (auto simp: dict_item_def dict_get_def)

text \<open>
  Claim C6, as the code has it.  The summary is the empty string exactly when the list of
  old turns is empty.  Otherwise, with \<open>qs\<close> the contents of the user-authored turns (the
  turns whose role is \<open>human\<close>, each carrying a content field), it is
  \<open>Previous topics discussed: \<close> followed by the texts joined by a comma when there are at
  most two (none gives the bare prefix), and \<open>Previous conversation covered n topics
  including: \<close> followed by the first three texts and an ellipsis when there are \<open>n \<ge> 3\<close>.
\<close>

theorem summarize_old_context_format:
  assumes "\<forall>m \<in> set old. m ''role'' = Some ''human'' \<longrightarrow> m ''content'' \<noteq> None"
  defines "qs \<equiv> map (\<lambda>m. dict_get m ''content'' '''')
                    (filter (\<lambda>m. m ''role'' = Some ''human'') old)"
  shows "summarize_old_context self old k =
           Inr (if old = [] then ''''
                else if length qs \<le> 2 then ''Previous topics discussed: '' @ join '', '' qs
                else ''Previous conversation covered '' @ str_nat (length qs)
                     @ '' topics including: '' @ join '', '' (take 3 qs) @ ''...'')
       \<and> (summarize_old_context self old k = Inr '''' \<longleftrightarrow> old = [])"
  using user_queries_of_filter [OF assms(1)]
  by (simp add: summarize_old_context_def qs_def)

theorem summarize_old_context_format_witness:
  "summarize_old_context \<lparr>max_context_tokens = 100, summary_tokens = 50\<rparr>
     [turn ''human'' ''What is AI?'', turn ''ai'' ''AI is artificial intelligence'',
      turn ''human'' ''How does RAG work?''] ''key''
   = Inr ''Previous topics discussed: What is AI?, How does RAG work?''
   \<and> summarize_old_context \<lparr>max_context_tokens = 100, summary_tokens = 50\<rparr>
     [turn ''human'' ''a'', turn ''ai'' ''b'', turn ''human'' ''c'', turn ''human'' ''d'',
      turn ''ai'' ''e'', turn ''human'' ''f''] ''key''
   = Inr ''Previous conversation covered 4 topics including: a, c, d...''"
  using
    summarize_old_context_format
      [of "[turn ''human'' ''What is AI?'', turn ''ai'' ''AI is artificial intelligence'',
            turn ''human'' ''How does RAG work?'']"
          "\<lparr>max_context_tokens = 100, summary_tokens = 50\<rparr>" "''key''"]
    summarize_old_context_format
      [of "[turn ''human'' ''a'', turn ''ai'' ''b'', turn ''human'' ''c'', turn ''human'' ''d'',
            turn ''ai'' ''e'', turn ''human'' ''f'']"
          "\<lparr>max_context_tokens = 100, summary_tokens = 50\<rparr>" "''key''"]
  by (simp add: turn_def dict_get_def str_nat.simps digit_char_def)

text \<open>
  Claim C6 as stated fails on a non-empty list without a user-authored turn: the guard of
  the code tests the list of turns, not the list of extracted queries.
\<close>

theorem summarize_old_context_counterexample:
  "summarize_old_context \<lparr>max_context_tokens = 3000, summary_tokens = 500\<rparr>
     [turn ''assistant'' ''Hello''] ''key'' = Inr ''Previous topics discussed: ''
   \<and> summarize_old_context \<lparr>max_context_tokens = 3000, summary_tokens = 500\<rparr>
     [turn ''assistant'' ''Hello''] ''key'' \<noteq> Inr ''''"
  by (simp add: summarize_old_context_def turn_def)
section \<open>Properties of the key-value client\<close>

lemma sent_simps [simp]:
  "entries (sent r) = entries r" "outage (sent r) = outage r"
  "round_trips (sent r) = Suc (round_trips r)"
  by (simp_all add: sent_def)

lemma is_connected_no_client: "redis_client self = None \<Longrightarrow> is_connected self r = (False, r)"
  by (simp add: is_connected_def)

lemma is_connected_client:
  "redis_client self = Some c \<Longrightarrow> is_connected self r = (\<not> lost r, sent r)"
  by (simp add: is_connected_def redis_ping_def)

lemma is_connected_entries [simp]: "entries (snd (is_connected self r)) = entries r"
  by (cases "redis_client self") (simp_all add: is_connected_no_client is_connected_client)

lemma is_connected_down:
  "redis_client self = None \<or> lost r \<Longrightarrow> fst (is_connected self r) = False"
  by (cases "redis_client self") (auto simp: is_connected_no_client is_connected_client)

lemma try_except_returns [simp]:
  "try_except body (\<lambda>e. returns d) s =
     (case body s of (Inl e, s') \<Rightarrow> (Inr d, s') | (Inr v, s') \<Rightarrow> (Inr v, s'))"
  by (simp add: try_except_def returns_def split: prod.splits sum.splits)

lemma load_cached_entries [simp]: "entries (snd (load_cached key r)) = entries r"
  by (simp add: load_cached_def redis_get_def split: option.splits sum.splits)

lemma fail_open:
  assumes "redis_client self = None \<or> lost r"
  shows "get_chat_history self sid r = (Inr None, snd (is_connected self r))"
    "set_chat_history self sid h ttl r = (Inr False, snd (is_connected self r))"
    "append_to_chat_history self sid u a r = (Inr False, snd (is_connected self r))"
    "get_rag_chain_config sha self k m r = (Inr None, snd (is_connected self r))"
    "set_rag_chain_config sha self k m cfg ttlm r = (Inr False, snd (is_connected self r))"
    "invalidate_chat_history self sid r = (Inr False, snd (is_connected self r))"
proof -
  obtain r1 where "is_connected self r = (False, r1)"
    using is_connected_down [OF assms] by (cases "is_connected self r") auto
  then show "get_chat_history self sid r = (Inr None, snd (is_connected self r))"
    "set_chat_history self sid h ttl r = (Inr False, snd (is_connected self r))"
    "append_to_chat_history self sid u a r = (Inr False, snd (is_connected self r))"
    "get_rag_chain_config sha self k m r = (Inr None, snd (is_connected self r))"
    "set_rag_chain_config sha self k m cfg ttlm r = (Inr False, snd (is_connected self r))"
    "invalidate_chat_history self sid r = (Inr False, snd (is_connected self r))"
    by (simp_all add: get_chat_history_def set_chat_history_def append_to_chat_history_def
      get_rag_chain_config_def set_rag_chain_config_def invalidate_chat_history_def)
qed

text \<open>No operation of the client raises, in any state of the service: every command that
  can fail is sent inside a \<open>try\<close> whose handler returns \<open>None\<close> or \<open>False\<close>.\<close>

lemma redis_cache_never_raises:
  "\<exists>v. fst (get_chat_history self sid r) = Inr v"
  "\<exists>v. fst (set_chat_history self sid h ttl r) = Inr v"
  "\<exists>v. fst (append_to_chat_history self sid u a r) = Inr v"
  "\<exists>v. fst (get_rag_chain_config sha self k m r) = Inr v"
  "\<exists>v. fst (set_rag_chain_config sha self k m cfg ttlm r) = Inr v"
  "\<exists>v. fst (invalidate_chat_history self sid r) = Inr v"
  by (auto simp: get_chat_history_def set_chat_history_def append_to_chat_history_def
        get_rag_chain_config_def set_rag_chain_config_def invalidate_chat_history_def
        split: prod.splits bool.splits sum.splits)

lemma store_cached_nonpositive:
  "seconds \<le> 0 \<Longrightarrow> \<exists>e. fst (store_cached key seconds v r) = Inl e"
  by (simp add: store_cached_def redis_setex_def timedelta_def split: sum.splits)

lemma store_cached_nonpositive_entries:
  "seconds \<le> 0 \<Longrightarrow> entries (snd (store_cached key seconds v r)) = entries r"
  by (simp add: store_cached_def redis_setex_def timedelta_def split: sum.splits)

lemma set_chat_history_nonpositive:
  assumes "ttl \<le> 0"
  shows "fst (set_chat_history self sid h ttl r) = Inr False"
    and "entries (snd (set_chat_history self sid h ttl r)) = entries r"
proof -
  obtain c r1 where ic: "is_connected self r = (c, r1)" by (cases "is_connected self r")
  have e1: "entries r1 = entries r" using is_connected_entries [of self r] ic by simp
  from assms have le: "3600 * ttl \<le> 0" by simp
  obtain x r2 where sc: "store_cached (chat_history_key sid) (3600 * ttl) h r1 = (x, r2)"
    by (cases "store_cached (chat_history_key sid) (3600 * ttl) h r1")
  from store_cached_nonpositive [OF le, of "chat_history_key sid" h r1] sc
  obtain e where x: "x = Inl e" by auto
  from store_cached_nonpositive_entries [OF le, of "chat_history_key sid" h r1] sc
  have e2: "entries r2 = entries r1" by simp
  show "fst (set_chat_history self sid h ttl r) = Inr False"
    by (cases c) (simp_all add: set_chat_history_def ic sc x)
  show "entries (snd (set_chat_history self sid h ttl r)) = entries r"
    by (cases c) (simp_all add: set_chat_history_def ic sc x e1 e2)
qed

lemma get_chat_history_result:
  "fst (get_chat_history self sid r) = Inr (Some v) \<Longrightarrow>
   value_of r (chat_history_key sid) = Some (Text v)"
proof -
  assume a: "fst (get_chat_history self sid r) = Inr (Some v)"
  obtain c r1 where ic: "is_connected self r = (c, r1)" by (cases "is_connected self r")
  have e1: "entries r1 = entries r" using is_connected_entries [of self r] ic by simp
  from a ic have c: "c" by (cases c) (simp_all add: get_chat_history_def)
  from a ic c have "fst (load_cached (chat_history_key sid) r1) = Inr (Some v)"
    by (auto simp: get_chat_history_def split: prod.splits sum.splits)
  then have "value_of r1 (chat_history_key sid) = Some (Text v)"
    by (cases "map_of (entries r1) (chat_history_key sid)")
       (auto simp: load_cached_def redis_get_def value_of_def py_value_def
             split: if_splits sum.splits stored.splits elim!: json_loads.elims)
  then show ?thesis by (simp add: value_of_def e1)
qed

lemma get_chat_history_absent:
  "value_of r (chat_history_key sid) = None \<Longrightarrow> fst (get_chat_history self sid r) = Inr None"
proof -
  assume a: "value_of r (chat_history_key sid) = None"
  obtain c r1 where ic: "is_connected self r = (c, r1)" by (cases "is_connected self r")
  have e1: "entries r1 = entries r" using is_connected_entries [of self r] ic by simp
  have "fst (load_cached (chat_history_key sid) r1) \<in> {Inl ConnectionError, Inr None}"
    using a by (simp add: load_cached_def redis_get_def value_of_def e1)
  then show ?thesis
    by (cases c) (auto simp: get_chat_history_def ic split: prod.splits sum.splits)
qed


lemma store_cached_True:
  assumes "store_cached key seconds v r = (Inr b, r')"
  shows "b \<and> 0 < seconds \<and> entries r' = AList.update key (Text v, nat seconds) (entries r)"
  using assms
  by (auto simp: store_cached_def redis_setex_def timedelta_def json_dumps_def
           split: sum.splits if_splits)

lemma set_chat_history_True:
  assumes "set_chat_history self sid h ttl r = (Inr True, r')"
  shows "0 < ttl \<and>
         entries r' = AList.update (chat_history_key sid) (Text h, nat (3600 * ttl)) (entries r)"
proof -
  obtain c r1 where ic: "is_connected self r = (c, r1)" by (cases "is_connected self r")
  have e1: "entries r1 = entries r" using is_connected_entries [of self r] ic by simp
  from assms ic have c: "c" by (cases c) (simp_all add: set_chat_history_def)
  obtain x r2 where sc: "store_cached (chat_history_key sid) (3600 * ttl) h r1 = (x, r2)"
    by (cases "store_cached (chat_history_key sid) (3600 * ttl) h r1")
  from assms ic c sc have "x = Inr True" "r2 = r'"
    by (auto simp: set_chat_history_def split: sum.splits)
  with store_cached_True [of "chat_history_key sid" "3600 * ttl" h r1 True r'] sc e1
  show ?thesis by simp
qed

lemma append_body_True:
  assumes "append_body self sid u a r = (Inr True, r')"
  shows "\<exists>old. entries r' =
           AList.update (chat_history_key sid)
             (Text (JArr (old @ [chat_message ''user'' u, chat_message ''assistant'' a])), 86400)
             (entries r)"
proof -
  obtain g r1 where gh: "get_chat_history self sid r = (g, r1)"
    by (cases "get_chat_history self sid r")
  have e1: "entries r1 = entries r"
  proof -
    obtain c r0 where ic: "is_connected self r = (c, r0)" by (cases "is_connected self r")
    have e0: "entries r0 = entries r" using is_connected_entries [of self r] ic by simp
    show ?thesis
    proof (cases c)
      case False
      with gh ic e0 show ?thesis by (auto simp: get_chat_history_def)
    next
      case True
      obtain x r2 where lc: "load_cached (chat_history_key sid) r0 = (x, r2)"
        by (cases "load_cached (chat_history_key sid) r0")
      have "entries r2 = entries r0"
        using load_cached_entries [of "chat_history_key sid" r0] lc by simp
      moreover from gh ic True lc have "r1 = r2"
        by (cases x) (simp_all add: get_chat_history_def)
      ultimately show ?thesis by (simp add: e0)
    qed
  qed
  from assms gh obtain got where g: "g = Inr got"
    by (cases g) (simp_all add: append_body_def)
  define cur where "cur = (case got of None \<Rightarrow> JArr [] | Some v \<Rightarrow> if json_truthy v then v else JArr [])"
  from assms gh g obtain ext where
    le: "list_extend cur [chat_message ''user'' u, chat_message ''assistant'' a] = Inr ext"
    and sh: "set_chat_history self sid ext 24 r1 = (Inr True, r')"
    by (auto simp: append_body_def cur_def Let_def split: sum.splits)
  from le obtain old where "ext = JArr (old @ [chat_message ''user'' u, chat_message ''assistant'' a])"
    by (cases cur) auto
  with set_chat_history_True [OF sh] e1 show ?thesis by auto
qed

lemma append_to_chat_history_True:
  assumes "append_to_chat_history self sid u a r = (Inr True, r')"
  shows "\<exists>old. entries r' =
           AList.update (chat_history_key sid)
             (Text (JArr (old @ [chat_message ''user'' u, chat_message ''assistant'' a])), 86400)
             (entries r)"
proof -
  obtain c r1 where ic: "is_connected self r = (c, r1)" by (cases "is_connected self r")
  have e1: "entries r1 = entries r" using is_connected_entries [of self r] ic by simp
  from assms ic have c: "c" by (cases c) (simp_all add: append_to_chat_history_def)
  from assms ic c have "append_body self sid u a r1 = (Inr True, r')"
    by (auto simp: append_to_chat_history_def split: prod.splits sum.splits)
  from append_body_True [OF this] e1 show ?thesis by simp
qed

lemmas redis_eval =
  get_chat_history_def set_chat_history_def append_to_chat_history_def append_body_def
  invalidate_chat_history_def is_connected_def load_cached_def store_cached_def
  delete_cached_def redis_ping_def redis_get_def redis_setex_def redis_delete_def
  lost_def sent_def timedelta_def json_dumps_def py_value_def chat_history_key_def
  chat_message_def local_client_def redis_up_def redis_down_def greeting_def elapse_def
  ttl_of_def value_of_def

text \<open>
  Claim C2.  When the service is unreachable (the client holds no connection, or the
  liveness probe that opens every operation is lost), each of the six operations returns
  without raising: the reads return \<open>None\<close>, the writes return \<open>False\<close>, and the
  entries of the service are as before.  (By \<open>redis_cache_never_raises\<close> no operation
  raises in any other state either.)
\<close>

theorem redis_cache_fail_open:
  assumes "redis_client self = None \<or> lost r"
  shows "fst (get_chat_history self sid r) = Inr None
       \<and> fst (set_chat_history self sid h ttl r) = Inr False
       \<and> fst (append_to_chat_history self sid u a r) = Inr False
       \<and> fst (get_rag_chain_config sha self k m r) = Inr None
       \<and> fst (set_rag_chain_config sha self k m cfg ttlm r) = Inr False
       \<and> fst (invalidate_chat_history self sid r) = Inr False
       \<and> entries (snd (set_chat_history self sid h ttl r)) = entries r
       \<and> entries (snd (append_to_chat_history self sid u a r)) = entries r
       \<and> entries (snd (set_rag_chain_config sha self k m cfg ttlm r)) = entries r
       \<and> entries (snd (invalidate_chat_history self sid r)) = entries r"
  using fail_open [OF assms] by simp

theorem redis_cache_fail_open_witness:
  "lost redis_down
   \<and> fst (get_chat_history local_client ''s1'' redis_down) = Inr None
   \<and> fst (set_chat_history local_client ''s1'' greeting 24 redis_down) = Inr False
   \<and> fst (append_to_chat_history local_client ''s1'' ''hi'' ''hello'' redis_down) = Inr False
   \<and> fst (get_rag_chain_config id local_client ''key'' ''gpt-4o-mini'' redis_down) = Inr None
   \<and> fst (set_rag_chain_config id local_client ''key'' ''gpt-4o-mini'' (JObj []) 30 redis_down)
       = Inr False
   \<and> fst (invalidate_chat_history local_client ''s1'' redis_down) = Inr False"
  using redis_cache_fail_open [of local_client redis_down "''s1''" greeting 24 "''hi''" "''hello''"
      id "''key''" "''gpt-4o-mini''" "JObj []" 30]
  by (simp add: lost_def redis_down_def)

text \<open>
  Claim C7, as the code has it.  A \<open>set_chat_history\<close> with a time to live of zero hours
  or less is rejected by the service: it returns \<open>False\<close> and leaves every entry as it
  was, so the value it carried is never retrievable.  A later \<open>get_chat_history\<close> can
  only return what the service already held before the write: a miss when the session had
  no entry, the earlier entry otherwise.
\<close>

theorem set_chat_history_nonpositive_ttl:
  assumes "ttl \<le> 0"
  shows "fst (set_chat_history self sid h ttl r) = Inr False
       \<and> entries (snd (set_chat_history self sid h ttl r)) = entries r
       \<and> (\<forall>v. fst (get_chat_history self sid (snd (set_chat_history self sid h ttl r)))
                 = Inr (Some v)
              \<longrightarrow> value_of r (chat_history_key sid) = Some (Text v))
       \<and> (value_of r (chat_history_key sid) = None
              \<longrightarrow> fst (get_chat_history self sid (snd (set_chat_history self sid h ttl r)))
                    = Inr None)"
proof -
  let ?r' = "snd (set_chat_history self sid h ttl r)"
  have e: "entries ?r' = entries r"
    by (rule set_chat_history_nonpositive(2) [OF assms])
  then have v: "value_of ?r' = value_of r"
    by (simp add: value_of_def fun_eq_iff)
  show ?thesis
    using set_chat_history_nonpositive(1) [OF assms] e
      get_chat_history_result [of self sid ?r'] get_chat_history_absent [of ?r' sid self]
    by (simp add: v)
qed

theorem set_chat_history_nonpositive_ttl_witness:
  "fst (set_chat_history local_client ''s1'' greeting 0 redis_up) = Inr False
   \<and> entries (snd (set_chat_history local_client ''s1'' greeting 0 redis_up)) = []
   \<and> fst (get_chat_history local_client ''s1''
            (snd (set_chat_history local_client ''s1'' greeting 0 redis_up))) = Inr None"
  using set_chat_history_nonpositive_ttl [of 0 local_client "''s1''" greeting redis_up]
  by (simp add: value_of_def redis_up_def)

text \<open>
  Claim C7 as stated fails when the session already has a live entry: the rejected write
  leaves it in place, and the following read is a hit on the earlier history.
\<close>

theorem set_chat_history_nonpositive_ttl_counterexample:
  "fst (set_chat_history local_client ''s1'' greeting 24 redis_up) = Inr True
   \<and> fst (set_chat_history local_client ''s1'' (JArr []) 0
            (snd (set_chat_history local_client ''s1'' greeting 24 redis_up))) = Inr False
   \<and> fst (get_chat_history local_client ''s1''
            (snd (set_chat_history local_client ''s1'' (JArr []) 0
                   (snd (set_chat_history local_client ''s1'' greeting 24 redis_up)))))
       = Inr (Some greeting)"
  by (simp add: redis_eval try_except_def returns_def)

text \<open>
  Claim C9.  Every \<open>append_to_chat_history\<close> that returns \<open>True\<close> has rewritten the
  session's entry as a whole (some list extended by the two new turns) with a time to
  live of 24 hours, whatever time to live the entry had, and has touched no other key.
\<close>

theorem append_to_chat_history_resets_ttl:
  assumes "append_to_chat_history self sid u a r = (Inr True, r')"
  shows "ttl_of r' (chat_history_key sid) = Some (24 * 3600)
       \<and> (\<exists>old. value_of r' (chat_history_key sid) =
             Some (Text (JArr (old @ [chat_message ''user'' u, chat_message ''assistant'' a]))))
       \<and> (\<forall>k. k \<noteq> chat_history_key sid \<longrightarrow> map_of (entries r') k = map_of (entries r) k)"
  using append_to_chat_history_True [OF assms]
  by (auto simp: ttl_of_def value_of_def update_conv')

theorem append_to_chat_history_resets_ttl_witness:
  "ttl_of hour_old (chat_history_key ''s1'') = Some 1800
   \<and> fst (append_to_chat_history local_client ''s1'' ''how are you?'' ''fine'' hour_old) = Inr True
   \<and> ttl_of (snd (append_to_chat_history local_client ''s1'' ''how are you?'' ''fine'' hour_old))
        (chat_history_key ''s1'') = Some 86400"
proof -
  have e: "entries hour_old = [(''chat_history:s1'', Text greeting, 1800)]"
    by (simp add: hour_old_def redis_eval)
  have t: "fst (append_to_chat_history local_client ''s1'' ''how are you?'' ''fine'' hour_old)
             = Inr True"
    by (simp add: hour_old_def redis_eval)
  then have "append_to_chat_history local_client ''s1'' ''how are you?'' ''fine'' hour_old
     = (Inr True,
        snd (append_to_chat_history local_client ''s1'' ''how are you?'' ''fine'' hour_old))"
    by (metis prod.collapse)
  from append_to_chat_history_resets_ttl [OF this] t show ?thesis
    by (simp add: ttl_of_def e chat_history_key_def)
qed

section \<open>Properties of the similarity search\<close>

lemma plausible_start: "plausible thr (None, 0)"
  by (simp add: plausible_def)

lemma process_entry_plausible:
  "plausible thr acc \<Longrightarrow> plausible thr (process_entry thr qe s acc)"
  by (cases acc) (auto simp: plausible_def process_entry_def split: sum.splits option.splits)

lemma scan_plausible:
  "plausible thr acc \<Longrightarrow> scan thr qe keys acc r = (Inr acc', r') \<Longrightarrow> plausible thr acc'"
proof (induction keys arbitrary: acc r)
  case Nil
  then show ?case by simp
next
  case (Cons key keys)
  obtain x r1 where g: "redis_get key r = (x, r1)" by (cases "redis_get key r")
  show ?case
  proof (cases x)
    case (Inl e)
    with Cons.prems g show ?thesis by simp
  next
    case (Inr cached)
    show ?thesis
    proof (cases cached)
      case None
      with Cons.prems g Inr show ?thesis by (auto dest: Cons.IH)
    next
      case (Some s)
      let ?acc = "if str_truthy s then process_entry thr qe s acc else acc"
      have "plausible thr ?acc" using Cons.prems(1) by (simp add: process_entry_plausible)
      moreover have "scan thr qe keys ?acc r1 = (Inr acc', r')"
        using Cons.prems(2) g Inr Some by simp
      ultimately show ?thesis by (rule Cons.IH)
    qed
  qed
qed

lemma search_positive:
  assumes "search thr qe r = (Inr (Some m), r')"
  shows "0 < similarity m \<and> thr < similarity m"
proof -
  obtain x r1 where k: "redis_keys ''semantic_cache:'' r = (x, r1)"
    by (cases "redis_keys ''semantic_cache:'' r")
  from assms k obtain ks where x: "x = Inr ks" by (cases x) (simp_all add: search_def)
  obtain y r2 where s: "scan thr qe ks (None, 0) r1 = (y, r2)"
    by (cases "scan thr qe ks (None, 0) r1")
  from assms k x s obtain bs where y: "y = Inr (Some m, bs)"
    by (cases y) (auto simp: search_def split: prod.splits)
  from scan_plausible [OF plausible_start, of thr qe ks r1 "(Some m, bs)" r2] s y
  show ?thesis by (simp add: plausible_def)
qed

lemma get_embedding_model_threshold:
  "get_embedding_model self k = (m, self') \<Longrightarrow>
   similarity_threshold self' = similarity_threshold self"
  by (auto simp: get_embedding_model_def split: option.splits)

lemma generate_embedding_threshold:
  "generate_embedding env rc q k self r = (x, self', r') \<Longrightarrow>
   similarity_threshold self' = similarity_threshold self"
  by (auto simp: generate_embedding_def Let_def split: prod.splits sum.splits bool.splits
        dest: get_embedding_model_threshold)

lemma get_query_embedding_threshold:
  "get_query_embedding env rc q k self r = (x, self', r') \<Longrightarrow>
   similarity_threshold self' = similarity_threshold self"
  by (auto simp: get_query_embedding_def Let_def
        split: prod.splits sum.splits bool.splits option.splits if_splits
        dest: generate_embedding_threshold)

text \<open>
  Claim C10.  A match returned by \<open>find_similar_cached_response\<close> has a similarity
  strictly greater than 0 and strictly greater than the threshold of the cache object,
  whatever the threshold is (also a negative one), in every state of the cache and of the
  service: the running best starts at 0 and a candidate has to exceed both.
\<close>

theorem find_similar_positive:
  assumes "find_similar_cached_response env rc q k self r = (Inr (Some m), self', r')"
  shows "0 < similarity m \<and> similarity_threshold self < similarity m"
proof -
  obtain x self1 r1 where g: "get_query_embedding env rc q k self r = (x, self1, r1)"
    by (cases "get_query_embedding env rc q k self r")
  have t: "similarity_threshold self1 = similarity_threshold self"
    by (rule get_query_embedding_threshold [OF g])
  from assms g obtain qe where x: "x = Inr (Some qe)"
    by (cases x) (auto simp: find_similar_cached_response_def split: option.splits)
  obtain c r2 where ic: "is_connected rc r1 = (c, r2)" by (cases "is_connected rc r1")
  from assms g x ic have c: c by (cases c) (simp_all add: find_similar_cached_response_def)
  obtain y r3 where s: "search (similarity_threshold self1) qe r2 = (y, r3)"
    by (cases "search (similarity_threshold self1) qe r2")
  from assms g x ic c s have "y = Inr (Some m)"
    by (cases y) (simp_all add: find_similar_cached_response_def)
  with search_positive [of "similarity_threshold self1" qe r2 m r3] s t show ?thesis by simp
qed


lemmas semantic_eval =
  find_similar_cached_response_def get_query_embedding_def search_def process_entry_def
  cosine_similarity_def normalize_def l2_norm_def dot_def
  demo_env_def demo_cache_def demo_record_def demo_store_def orthogonal_store_def
  cache_entry_of_def semantic_key_def has_prefix_def redis_keys_def
  try_except_def returns_def

theorem find_similar_positive_witness:
  "fst (find_similar_cached_response demo_env local_client ''what is RAG?'' ''key''
          (demo_cache (- 1)) demo_store)
     = Inr (Some \<lparr>response = JStr ''retrieval augmented generation'', similarity = 1,
                  original_query = JStr ''what's RAG?'',
                  timestamp = JStr ''2024-01-01T00:00:00''\<rparr>)
   \<and> similarity_threshold (demo_cache (- 1)) < 0
   \<and> (0::real) < 1"
proof -
  let ?res = "find_similar_cached_response demo_env local_client ''what is RAG?'' ''key''
                (demo_cache (- 1)) demo_store"
  let ?m = "\<lparr>response = JStr ''retrieval augmented generation'', similarity = 1,
             original_query = JStr ''what's RAG?'',
             timestamp = JStr ''2024-01-01T00:00:00''\<rparr>"
  have e: "fst ?res = Inr (Some ?m)"
    by (simp add: semantic_eval redis_eval Let_def)
  then have "?res = (Inr (Some ?m), fst (snd ?res), snd (snd ?res))"
    by (metis prod.collapse)
  from find_similar_positive [OF this] e show ?thesis
    by (simp add: demo_cache_def)
qed


lemma visit_simps:
  "visit thr qe acc None = acc"
  "visit thr qe acc (Some s) = (if str_truthy s then process_entry thr qe s acc else acc)"
  by (simp_all add: visit_def)

lemma fold_best:
  "foldl (step thr) (bm, bs) cs = (bm', bs') \<Longrightarrow>
   ((bm', bs') = (bm, bs) \<and> (\<forall>m\<in>set cs. \<not> (thr < similarity m \<and> bs < similarity m)))
   \<or> (\<exists>pre m post. cs = pre @ m # post \<and> bm' = Some m \<and> bs' = similarity m
        \<and> thr < similarity m \<and> bs < similarity m
        \<and> (\<forall>x\<in>set pre. similarity x < similarity m)
        \<and> (\<forall>x\<in>set post. similarity x \<le> similarity m))"
proof (induction cs arbitrary: bm bs)
  case Nil
  then show ?case by simp
next
  case (Cons c cs)
  obtain bm1 bs1 where s1: "step thr (bm, bs) c = (bm1, bs1)" by (cases "step thr (bm, bs) c")
  with Cons.prems have f: "foldl (step thr) (bm1, bs1) cs = (bm', bs')" by simp
  have mono: "bs \<le> bs1" using s1 by (auto simp: step_def split: if_splits)
  from Cons.IH [OF f] show ?case
  proof
    assume A: "(bm', bs') = (bm1, bs1) \<and> (\<forall>m\<in>set cs. \<not> (thr < similarity m \<and> bs1 < similarity m))"
    show ?thesis
    proof (cases "thr < similarity c \<and> bs < similarity c")
      case True
      with s1 have "bm1 = Some c" "bs1 = similarity c" by (auto simp: step_def)
      with A True have "c # cs = [] @ c # cs \<and> bm' = Some c \<and> bs' = similarity c
        \<and> thr < similarity c \<and> bs < similarity c
        \<and> (\<forall>x\<in>set []. similarity x < similarity c)
        \<and> (\<forall>x\<in>set cs. similarity x \<le> similarity c)"
        by (auto simp: not_less)
      then show ?thesis by blast
    next
      case False
      with s1 have "(bm1, bs1) = (bm, bs)" by (auto simp: step_def)
      with A False show ?thesis by auto
    qed
  next
    assume "\<exists>pre m post. cs = pre @ m # post \<and> bm' = Some m \<and> bs' = similarity m
        \<and> thr < similarity m \<and> bs1 < similarity m
        \<and> (\<forall>x\<in>set pre. similarity x < similarity m)
        \<and> (\<forall>x\<in>set post. similarity x \<le> similarity m)"
    then obtain pre m post where B: "cs = pre @ m # post" "bm' = Some m" "bs' = similarity m"
        "thr < similarity m" "bs1 < similarity m"
        "\<forall>x\<in>set pre. similarity x < similarity m"
        "\<forall>x\<in>set post. similarity x \<le> similarity m" by blast
    have "similarity c < similarity m"
      using s1 B(4,5) by (auto simp: step_def split: if_splits)
    with B mono have "c # cs = (c # pre) @ m # post \<and> bm' = Some m \<and> bs' = similarity m
        \<and> thr < similarity m \<and> bs < similarity m
        \<and> (\<forall>x\<in>set (c # pre). similarity x < similarity m)
        \<and> (\<forall>x\<in>set post. similarity x \<le> similarity m)" by auto
    then show ?thesis by blast
  qed
qed

lemma record_match_process:
  "record_match qe s = Some m \<Longrightarrow> visit thr qe acc (Some s) = step thr acc m"
  by (cases acc; cases s)
     (auto simp: record_match_def visit_def step_def process_entry_def split: sum.splits)

lemma foldl_visit_step:
  "\<forall>s\<in>set recs. record_match qe s \<noteq> None \<Longrightarrow>
   foldl (visit thr qe) acc (map Some recs)
     = foldl (step thr) acc (map (\<lambda>s. the (record_match qe s)) recs)"
proof (induction recs arbitrary: acc)
  case Nil
  then show ?case by simp
next
  case (Cons s recs)
  then obtain m where "record_match qe s = Some m" by auto
  with Cons show ?case by (simp add: record_match_process)
qed

lemma scan_no_outage:
  "\<forall>n\<ge>round_trips r. \<not> outage r n \<Longrightarrow>
   \<exists>r'. scan thr qe keys acc r = (Inr (foldl (visit thr qe) acc (map (value_of r) keys)), r')
        \<and> entries r' = entries r"
proof (induction keys arbitrary: acc r)
  case Nil
  then show ?case by simp
next
  case (Cons key keys)
  have nl: "\<not> lost r" using Cons.prems by (simp add: lost_def)
  have up: "\<forall>n\<ge>round_trips (sent r). \<not> outage (sent r) n" using Cons.prems by simp
  have g: "redis_get key r = (Inr (value_of r key), sent r)"
    using nl by (simp add: redis_get_def value_of_def)
  have v: "value_of (sent r) = value_of r" by (simp add: value_of_def fun_eq_iff)
  from Cons.IH [OF up, of "visit thr qe acc (value_of r key)"] obtain r' where
    "scan thr qe keys (visit thr qe acc (value_of r key)) (sent r)
      = (Inr (foldl (visit thr qe) (visit thr qe acc (value_of r key)) (map (value_of r) keys)), r')"
    "entries r' = entries r" by (auto simp: v)
  then show ?case using g
    by (cases "value_of r key") (auto simp: visit_simps)
qed

lemma value_of_sublist:
  "distinct (map fst (entries r)) \<Longrightarrow> set xs \<subseteq> set (entries r) \<Longrightarrow>
   map (value_of r) (map fst xs) = map (\<lambda>x. Some (fst (snd x))) xs"
  by (induction xs) (auto simp: value_of_def)

lemma values_of_keys:
  assumes "distinct (map fst (entries r))"
  shows "map (value_of r) (filter (has_prefix ''semantic_cache:'') (map fst (entries r)))
         = map Some (semantic_records r)"
proof -
  let ?xs = "filter (\<lambda>e. has_prefix ''semantic_cache:'' (fst e)) (entries r)"
  have k: "filter (has_prefix ''semantic_cache:'') (map fst (entries r)) = map fst ?xs"
    by (simp add: filter_map comp_def)
  have "map (value_of r) (map fst ?xs) = map (\<lambda>x. Some (fst (snd x))) ?xs"
    by (rule value_of_sublist [OF assms]) auto
  then show ?thesis
    unfolding k by (simp add: semantic_records_def)
qed


lemma same_semantic_refl [simp]: "same_semantic r r"
  by (simp add: same_semantic_def)

lemma same_semantic_trans:
  "same_semantic r r1 \<Longrightarrow> same_semantic r1 r2 \<Longrightarrow> same_semantic r r2"
  by (auto simp: same_semantic_def)

lemma same_semantic_sent [simp]: "same_semantic r (sent r)"
  by (simp add: same_semantic_def semantic_records_def)

lemma same_semantic_is_connected: "is_connected rc r = (c, r') \<Longrightarrow> same_semantic r r'"
  by (auto simp: is_connected_def redis_ping_def split: option.splits if_splits)

lemma same_semantic_get: "redis_get key r = (x, r') \<Longrightarrow> same_semantic r r'"
  by (auto simp: redis_get_def)

lemma filter_update_other:
  "\<not> P (k, v) \<Longrightarrow> (\<forall>w. \<not> P (k, w)) \<Longrightarrow> filter P (AList.update k v al) = filter P al"
  by (induction al) auto

lemma embedding_key_not_semantic [simp]:
  "\<not> has_prefix ''semantic_cache:'' (embedding_key h)"
  by (simp add: has_prefix_def embedding_key_def)

lemma same_semantic_setex:
  "redis_setex (embedding_key h) s v r = (x, r') \<Longrightarrow> same_semantic r r'"
  by (auto simp: redis_setex_def same_semantic_def semantic_records_def filter_update_other
        distinct_update split: if_splits)

lemma same_semantic_generate:
  assumes "generate_embedding env rc q k self r = (x, self', r')"
  shows "same_semantic r r'"
proof -
  obtain c r1 where ic: "is_connected rc r = (c, r1)" by (cases "is_connected rc r")
  note s1 = same_semantic_is_connected [OF ic]
  obtain y r2 where se: "redis_setex (embedding_key (md5_hex env q)) 86400
      (pickle (projr (embed_query env (fst (get_embedding_model self k)) q))) r1 = (y, r2)"
    by (cases "redis_setex (embedding_key (md5_hex env q)) 86400
      (pickle (projr (embed_query env (fst (get_embedding_model self k)) q))) r1")
  note s2 = same_semantic_trans [OF s1 same_semantic_setex [OF se]]
  from assms ic se s1 s2 show ?thesis
    by (cases c)
       (auto simp: generate_embedding_def Let_def timedelta_def
             split: prod.splits sum.splits)
qed

lemma same_semantic_get_query_embedding:
  assumes "get_query_embedding env rc q k self r = (x, self', r')"
  shows "same_semantic r r'"
proof (cases "embeddings_cache self (md5_hex env q)")
  case (Some e)
  with assms show ?thesis by (simp add: get_query_embedding_def)
next
  case None
  obtain c r1 where ic: "is_connected rc r = (c, r1)" by (cases "is_connected rc r")
  note s1 = same_semantic_is_connected [OF ic]
  obtain y r2 where g: "redis_get (embedding_key (md5_hex env q)) r1 = (y, r2)"
    by (cases "redis_get (embedding_key (md5_hex env q)) r1")
  note s2 = same_semantic_trans [OF s1 same_semantic_get [OF g]]
  have gen: "generate_embedding env rc q k self ra = (x, self', r') \<Longrightarrow> same_semantic r ra
      \<Longrightarrow> same_semantic r r'" for ra
    by (blast intro: same_semantic_trans same_semantic_generate)
  from assms None ic g s1 s2 show ?thesis
    by (cases c)
       (auto simp: get_query_embedding_def Let_def
             split: sum.splits option.splits if_splits intro: gen)
qed


lemma search_no_outage:
  assumes up: "\<forall>n\<ge>round_trips r. \<not> outage r n"
    and dist: "distinct (map fst (entries r))"
    and wf: "\<forall>s\<in>set (semantic_records r). record_match qe s \<noteq> None"
  shows "\<exists>r'. search thr qe r =
           (Inr (fst (foldl (step thr) (None, 0)
                        (map (\<lambda>s. the (record_match qe s)) (semantic_records r)))), r')"
proof -
  have nl: "\<not> lost r" using up by (simp add: lost_def)
  have k: "redis_keys ''semantic_cache:'' r
           = (Inr (filter (has_prefix ''semantic_cache:'') (map fst (entries r))), sent r)"
    using nl by (simp add: redis_keys_def)
  have up': "\<forall>n\<ge>round_trips (sent r). \<not> outage (sent r) n" using up by simp
  have v: "value_of (sent r) = value_of r" by (simp add: value_of_def fun_eq_iff)
  let ?keys = "filter (has_prefix ''semantic_cache:'') (map fst (entries r))"
  from scan_no_outage [OF up', of thr qe ?keys "(None, 0)"] obtain r' where
    sc: "scan thr qe ?keys (None, 0) (sent r)
          = (Inr (foldl (visit thr qe) (None, 0) (map (value_of r) ?keys)), r')"
    by (auto simp: v)
  have "foldl (visit thr qe) (None, 0) (map (value_of r) ?keys)
        = foldl (step thr) (None, 0) (map (\<lambda>s. the (record_match qe s)) (semantic_records r))"
    by (simp add: values_of_keys [OF dist] foldl_visit_step [OF wf])
  with sc k show ?thesis
    by (auto simp: search_def split: prod.splits)
qed

text \<open>The records that \<open>cache_response\<close> writes are records from which the loop builds a
  match, for every query vector of the length of the stored one.\<close>

lemma np_array_numbers: "np_array (JArr (map JNum v)) = Inr v"
  by (simp add: list_all_iff comp_def)

lemma record_match_cache_entry:
  "qe \<noteq> [] \<Longrightarrow> length v = length qe \<Longrightarrow>
   record_match qe (json_dumps (cache_entry_of env q a v ch now k))
     = Some \<lparr>response = JStr a, similarity = dot (normalize qe) (normalize v),
             original_query = JStr q, timestamp = JStr now\<rparr>"
  by (simp add: record_match_def json_dumps_def cache_entry_of_def np_array_numbers
        cosine_similarity_def del: np_array.simps)

lemma cache_response_stores:
  assumes "cache_response env rc q a k ch ttl now self r = (Inr True, self', r')"
  shows "\<exists>v. fst (get_query_embedding env rc q k self r) = Inr (Some v)
           \<and> value_of r' (semantic_key (md5_hex env q))
               = Some (json_dumps (cache_entry_of env q a v ch now k))"
proof -
  obtain x self1 r1 where g: "get_query_embedding env rc q k self r = (x, self1, r1)"
    by (cases "get_query_embedding env rc q k self r")
  from assms g obtain v where x: "x = Inr (Some v)"
    by (cases x) (auto simp: cache_response_def split: option.splits)
  obtain c r2 where ic: "is_connected rc r1 = (c, r2)" by (cases "is_connected rc r1")
  from assms g x ic have c: c by (cases c) (simp_all add: cache_response_def Let_def)
  let ?entry = "cache_entry_of env q a v ch now k"
  obtain y r3 where sc: "store_cached (semantic_key (md5_hex env q)) (3600 * ttl) ?entry r2 = (y, r3)"
    by (cases "store_cached (semantic_key (md5_hex env q)) (3600 * ttl) ?entry r2")
  from assms g x ic c sc obtain ok where y: "y = Inr ok" and r3: "r3 = r'"
    by (cases y) (simp_all add: cache_response_def Let_def)
  from store_cached_True [of "semantic_key (md5_hex env q)" "3600 * ttl" ?entry r2 ok r3] sc y r3
  have "value_of r' (semantic_key (md5_hex env q)) = Some (json_dumps ?entry)"
    by (simp add: value_of_def update_conv' json_dumps_def)
  with g x show ?thesis by simp
qed

lemma record_match_weather: "record_match [1, 0] (demo_record ''weather?'' ''sunny'' [0, 1]) = Some weather_match"
  by (simp add: demo_record_def record_match_cache_entry weather_match_def dot_def normalize_def l2_norm_def)

lemma record_match_rag: "record_match [1, 0] (demo_record ''what's RAG?'' ''retrieval augmented generation'' [2, 0]) = Some rag_match"
  by (simp add: demo_record_def record_match_cache_entry rag_match_def dot_def normalize_def l2_norm_def)

lemma semantic_records_demo_store: "semantic_records demo_store =
   [demo_record ''weather?'' ''sunny'' [0, 1],
    demo_record ''what's RAG?'' ''retrieval augmented generation'' [2, 0]]"
  by (simp add: semantic_records_def demo_store_def semantic_key_def chat_history_key_def has_prefix_def)

text \<open>
  Claim C1, as the code has it.  Let the embedding of the query resolve, the service answer
  every command of the search, and every record of the semantic-cache namespace be one
  from which the loop builds a match (as the records written by \<open>cache_response\<close> are).
  Then \<open>find_similar_cached_response\<close> enumerates all these records, computes the
  cosine similarity of each with the query, and returns the first record of the highest
  similarity, provided that similarity is strictly greater than the threshold and
  strictly greater than 0, the initial value of the running best; it returns \<open>None\<close>
  exactly when no record exceeds both.  A similarity equal to the threshold does not
  qualify.
\<close>

theorem find_similar_best_match:
  assumes emb: "get_query_embedding env rc q k self r = (Inr (Some qe), self1, r1)"
    and client: "redis_client rc \<noteq> None"
    and up: "\<forall>n\<ge>round_trips r. \<not> outage r n"
    and dist: "distinct (map fst (entries r))"
    and wf: "\<forall>s\<in>set (semantic_records r). record_match qe s \<noteq> None"
  defines "cands \<equiv> map (\<lambda>s. the (record_match qe s)) (semantic_records r)"
  defines "thr \<equiv> similarity_threshold self"
  shows "\<exists>res r'. find_similar_cached_response env rc q k self r = (Inr res, self1, r')
        \<and> (res = None \<longleftrightarrow> (\<forall>m\<in>set cands. \<not> (thr < similarity m \<and> 0 < similarity m)))
        \<and> (\<forall>m. res = Some m \<longrightarrow>
              thr < similarity m \<and> 0 < similarity m
              \<and> (\<exists>pre post. cands = pre @ m # post
                    \<and> (\<forall>x\<in>set pre. similarity x < similarity m)
                    \<and> (\<forall>x\<in>set post. similarity x \<le> similarity m)))"
proof -
  note s1 = same_semantic_get_query_embedding [OF emb]
  have t: "similarity_threshold self1 = thr"
    unfolding thr_def by (rule get_query_embedding_threshold [OF emb])
  obtain c r2 where ic: "is_connected rc r1 = (c, r2)" by (cases "is_connected rc r1")
  note s2 = same_semantic_trans [OF s1 same_semantic_is_connected [OF ic]]
  have up1: "\<forall>n\<ge>round_trips r1. \<not> outage r1 n"
    using up s1 by (simp add: same_semantic_def)
  have c: c
    using ic client up1 by (auto simp: is_connected_def redis_ping_def lost_def split: if_splits)
  have up2: "\<forall>n\<ge>round_trips r2. \<not> outage r2 n"
    using up s2 by (simp add: same_semantic_def)
  have dist2: "distinct (map fst (entries r2))" using dist s2 by (simp add: same_semantic_def)
  have recs: "semantic_records r2 = semantic_records r" using s2 by (simp add: same_semantic_def)
  have wf2: "\<forall>s\<in>set (semantic_records r2). record_match qe s \<noteq> None" using wf recs by simp
  obtain bm bs where f: "foldl (step thr) (None, 0) cands = (bm, bs)"
    by (cases "foldl (step thr) (None, 0) cands")
  from search_no_outage [OF up2 dist2 wf2, of thr] obtain r' where
    se: "search thr qe r2 = (Inr bm, r')"
    by (auto simp: recs f cands_def [symmetric])
  have res: "find_similar_cached_response env rc q k self r = (Inr bm, self1, r')"
    using emb ic c se by (simp add: find_similar_cached_response_def t)
  from fold_best [OF f] have best:
    "(bm = None \<longleftrightarrow> (\<forall>m\<in>set cands. \<not> (thr < similarity m \<and> 0 < similarity m)))
     \<and> (\<forall>m. bm = Some m \<longrightarrow>
              thr < similarity m \<and> 0 < similarity m
              \<and> (\<exists>pre post. cands = pre @ m # post
                    \<and> (\<forall>x\<in>set pre. similarity x < similarity m)
                    \<and> (\<forall>x\<in>set post. similarity x \<le> similarity m)))"
  proof
    assume "(bm, bs) = (None, 0) \<and> (\<forall>m\<in>set cands. \<not> (thr < similarity m \<and> 0 < similarity m))"
    then show ?thesis by simp
  next
    assume "\<exists>pre m post. cands = pre @ m # post \<and> bm = Some m \<and> bs = similarity m
        \<and> thr < similarity m \<and> 0 < similarity m
        \<and> (\<forall>x\<in>set pre. similarity x < similarity m)
        \<and> (\<forall>x\<in>set post. similarity x \<le> similarity m)"
    then obtain pre m post where B: "cands = pre @ m # post" "bm = Some m"
        "thr < similarity m" "0 < similarity m"
        "\<forall>x\<in>set pre. similarity x < similarity m"
        "\<forall>x\<in>set post. similarity x \<le> similarity m" by blast
    have "m \<in> set cands" using B(1) by simp
    with B show ?thesis by blast
  qed
  with res show ?thesis by blast
qed


theorem find_similar_best_match_witness:
  "get_query_embedding demo_env local_client ''what is RAG?'' ''key'' (demo_cache (85 / 100)) demo_store
     = (Inr (Some [1, 0]), demo_cache (85 / 100), demo_store)
   \<and> distinct (map fst (entries demo_store))
   \<and> semantic_records demo_store =
       [demo_record ''weather?'' ''sunny'' [0, 1],
        demo_record ''what's RAG?'' ''retrieval augmented generation'' [2, 0]]
   \<and> record_match [1, 0] (demo_record ''weather?'' ''sunny'' [0, 1]) = Some weather_match
   \<and> record_match [1, 0] (demo_record ''what's RAG?'' ''retrieval augmented generation'' [2, 0])
       = Some rag_match
   \<and> fst (find_similar_cached_response demo_env local_client ''what is RAG?'' ''key''
            (demo_cache (85 / 100)) demo_store) = Inr (Some rag_match)"
proof -
  have emb: "get_query_embedding demo_env local_client ''what is RAG?'' ''key''
               (demo_cache (85 / 100)) demo_store
             = (Inr (Some [1, 0]), demo_cache (85 / 100), demo_store)"
    by (simp add: get_query_embedding_def demo_env_def demo_cache_def)
  have client: "redis_client local_client \<noteq> None" by (simp add: local_client_def)
  have up: "\<forall>n\<ge>round_trips demo_store. \<not> outage demo_store n" by (simp add: demo_store_def)
  have dist: "distinct (map fst (entries demo_store))"
    by (simp add: demo_store_def semantic_key_def chat_history_key_def)
  have wf: "\<forall>s\<in>set (semantic_records demo_store). record_match [1, 0] s \<noteq> None"
    by (simp add: semantic_records_demo_store record_match_weather record_match_rag)
  have cands: "map (\<lambda>s. the (record_match [1, 0] s)) (semantic_records demo_store)
               = [weather_match, rag_match]"
    by (simp add: semantic_records_demo_store record_match_weather record_match_rag)
  from find_similar_best_match [OF emb client up dist wf] obtain res r' where
    R: "find_similar_cached_response demo_env local_client ''what is RAG?'' ''key''
          (demo_cache (85 / 100)) demo_store = (Inr res, demo_cache (85 / 100), r')"
       "res = None \<longleftrightarrow> (\<forall>m\<in>set [weather_match, rag_match].
            \<not> (similarity_threshold (demo_cache (85 / 100)) < similarity m \<and> 0 < similarity m))"
       "\<forall>m. res = Some m \<longrightarrow> 0 < similarity m \<and>
          (\<exists>pre post. [weather_match, rag_match] = pre @ m # post)"
    unfolding cands by blast
  from R(2) have "res \<noteq> None" by (simp add: rag_match_def demo_cache_def)
  then obtain m where m: "res = Some m" by auto
  with R(3) have "0 < similarity m" "m \<in> set [weather_match, rag_match]"
    by (auto simp: Cons_eq_append_conv)
  then have "m = rag_match" by (auto simp: weather_match_def)
  with R(1) m emb dist semantic_records_demo_store record_match_weather record_match_rag show ?thesis by simp
qed

text \<open>
  Claim C1 as stated fails for a negative threshold: a record whose similarity with the
  query is 0 strictly exceeds the threshold \<open>-1\<close> and is the only candidate, yet the
  search returns \<open>None\<close>, because 0 does not exceed the initial running best.
\<close>

theorem find_similar_best_match_counterexample:
  "semantic_records orthogonal_store = [demo_record ''weather?'' ''sunny'' [0, 1]]
   \<and> cosine_similarity [1, 0] [0, 1] = Inr 0
   \<and> record_match [1, 0] (demo_record ''weather?'' ''sunny'' [0, 1]) = Some weather_match
   \<and> similarity_threshold (demo_cache (- 1)) < similarity weather_match
   \<and> find_similar_cached_response demo_env local_client ''what is RAG?'' ''key''
            (demo_cache (- 1)) orthogonal_store
      = (Inr None, demo_cache (- 1), orthogonal_store\<lparr>round_trips := 3\<rparr>)"
  by (simp add: semantic_eval redis_eval Let_def semantic_records_def weather_match_def
        record_match_def)
section \<open>Properties of the connection pool\<close>

lemma get_connection_held:
  "local_connection self t = Some c \<Longrightarrow>
   fst (get_connection self t ok) = Inr c
   \<and> local_connection (snd (get_connection self t ok)) = local_connection self"
  by (simp add: get_connection_def)

lemma get_connection_result:
  "get_connection self t ok = (Inr c, self') \<Longrightarrow> local_connection self' t = Some c"
  by (auto simp: get_connection_def Let_def split: option.splits if_splits)

lemma get_connection_mono:
  "local_connection self u = Some c \<Longrightarrow>
   local_connection (snd (get_connection self t ok)) u = Some c"
  by (auto simp: get_connection_def Let_def split: option.splits)

lemma get_connection_dom:
  "dom (local_connection (snd (get_connection self t ok))) \<subseteq> insert t (dom (local_connection self))"
  by (auto simp: get_connection_def Let_def split: option.splits if_splits)

lemma run_pool_Cons:
  "run_pool self ((t, ok) # calls) =
     (fst (get_connection self t ok) # fst (run_pool (snd (get_connection self t ok)) calls),
      snd (run_pool (snd (get_connection self t ok)) calls))"
  by (simp split: prod.splits)

lemma run_pool_length [simp]: "length (fst (run_pool self calls)) = length calls"
  by (induction calls arbitrary: self) (auto simp: run_pool_Cons simp del: run_pool.simps(2))

lemma run_pool_mono:
  "local_connection self u = Some c \<Longrightarrow> local_connection (snd (run_pool self calls)) u = Some c"
proof (induction calls arbitrary: self)
  case Nil
  then show ?case by simp
next
  case (Cons call calls)
  obtain t ok where call: "call = (t, ok)" by (cases call)
  from Cons.prems have "local_connection (snd (get_connection self t ok)) u = Some c"
    by (rule get_connection_mono)
  from Cons.IH [OF this] show ?case
    by (simp add: call run_pool_Cons del: run_pool.simps(2))
qed

lemma run_pool_held:
  "local_connection self t = Some c \<Longrightarrow> i < length calls \<Longrightarrow> fst (calls ! i) = t \<Longrightarrow>
   fst (run_pool self calls) ! i = Inr c"
proof (induction calls arbitrary: self i)
  case Nil
  then show ?case by simp
next
  case (Cons call calls)
  obtain u ok where call: "call = (u, ok)" by (cases call)
  let ?self' = "snd (get_connection self u ok)"
  have held: "local_connection ?self' t = Some c"
    using Cons.prems(1) by (rule get_connection_mono)
  show ?case
  proof (cases i)
    case 0
    with Cons.prems call have "u = t" by simp
    with get_connection_held [OF Cons.prems(1), of ok] 0 call show ?thesis
      by (simp add: run_pool_Cons del: run_pool.simps(2))
  next
    case (Suc k)
    with Cons.prems have "k < length calls" "fst (calls ! k) = t" by simp_all
    from Cons.IH [OF held this] Suc call show ?thesis
      by (simp add: run_pool_Cons del: run_pool.simps(2))
  qed
qed

lemma run_pool_idempotent:
  "i \<le> j \<Longrightarrow> j < length calls \<Longrightarrow> fst (calls ! i) = fst (calls ! j) \<Longrightarrow>
   fst (run_pool self calls) ! i = Inr c \<Longrightarrow> fst (run_pool self calls) ! j = Inr c"
proof (induction calls arbitrary: self i j)
  case Nil
  then show ?case by simp
next
  case (Cons call calls)
  obtain u ok where call: "call = (u, ok)" by (cases call)
  obtain res self' where g: "get_connection self u ok = (res, self')"
    by (cases "get_connection self u ok")
  have rp: "fst (run_pool self (call # calls)) = res # fst (run_pool self' calls)"
    by (simp add: call g run_pool_Cons del: run_pool.simps(2))
  show ?case
  proof (cases i)
    case 0
    show ?thesis
    proof (cases j)
      case 0
      with \<open>i = 0\<close> Cons.prems show ?thesis by simp
    next
      case (Suc k)
      from Cons.prems(4) \<open>i = 0\<close> rp have "res = Inr c" by simp
      with g have "local_connection self' u = Some c" by (simp add: get_connection_result)
      moreover from Cons.prems Suc \<open>i = 0\<close> call have "k < length calls" "fst (calls ! k) = u"
        by simp_all
      ultimately have "fst (run_pool self' calls) ! k = Inr c" by (rule run_pool_held)
      with rp Suc show ?thesis by simp
    qed
  next
    case (Suc i')
    with Cons.prems obtain j' where j: "j = Suc j'" by (cases j) simp_all
    from Cons.prems Suc j rp have "i' \<le> j'" "j' < length calls"
      "fst (calls ! i') = fst (calls ! j')" "fst (run_pool self' calls) ! i' = Inr c"
      by simp_all
    from Cons.IH [OF this] rp j show ?thesis by simp
  qed
qed

lemma run_pool_dom:
  "dom (local_connection (snd (run_pool self calls)))
     \<subseteq> dom (local_connection self) \<union> fst ` set calls"
proof (induction calls arbitrary: self)
  case Nil
  then show ?case by simp
next
  case (Cons call calls)
  obtain u ok where call: "call = (u, ok)" by (cases call)
  have "snd (run_pool self (call # calls)) = snd (run_pool (snd (get_connection self u ok)) calls)"
    by (simp add: call run_pool_Cons del: run_pool.simps(2))
  with Cons.IH [of "snd (get_connection self u ok)"] get_connection_dom [of self u ok] call
  show ?case by auto
qed

lemma run_pool_returned:
  "returned (fst (run_pool self calls)) \<subseteq> ran (local_connection (snd (run_pool self calls)))"
proof (induction calls arbitrary: self)
  case Nil
  then show ?case by (simp add: returned_def)
next
  case (Cons call calls)
  obtain u ok where call: "call = (u, ok)" by (cases call)
  obtain res self' where g: "get_connection self u ok = (res, self')"
    by (cases "get_connection self u ok")
  have rp: "run_pool self (call # calls) = (res # fst (run_pool self' calls), snd (run_pool self' calls))"
    by (simp add: call g run_pool_Cons del: run_pool.simps(2))
  have "c \<in> ran (local_connection (snd (run_pool self' calls)))" if "res = Inr c" for c
  proof -
    from that g have "local_connection self' u = Some c" by (simp add: get_connection_result)
    then have "local_connection (snd (run_pool self' calls)) u = Some c" by (rule run_pool_mono)
    then show ?thesis by (auto simp: ran_def)
  qed
  with Cons.IH [of self'] show ?case
    by (auto simp: rp returned_def)
qed

lemma get_connection_inv: "pool_inv self \<Longrightarrow> pool_inv (snd (get_connection self t ok))"
  by (auto simp: pool_inv_def get_connection_def Let_def card_insert_if
           split: option.splits)

lemma run_pool_inv: "pool_inv self \<Longrightarrow> pool_inv (snd (run_pool self calls))"
proof (induction calls arbitrary: self)
  case Nil
  then show ?case by simp
next
  case (Cons call calls)
  obtain u ok where call: "call = (u, ok)" by (cases call)
  have "snd (run_pool self (call # calls)) = snd (run_pool (snd (get_connection self u ok)) calls)"
    by (simp add: call run_pool_Cons del: run_pool.simps(2))
  with Cons.IH [OF get_connection_inv [OF Cons.prems, of u ok]] show ?case by simp
qed

text \<open>
  Claim C4.  In every history of calls of \<open>get_connection\<close> on a fresh pool, once a call
  of a worker has returned a connection, every later call of that worker returns the same
  connection object; and the connection objects returned in the history, as well as the
  connections created, are at most as many as the distinct workers that call.
\<close>

theorem get_connection_per_worker:
  fixes calls :: "(worker_id \<times> bool) list" and path :: string and limit :: int
  defines "ress \<equiv> fst (run_pool (sqlite_pool_init path limit) calls)"
  defines "final \<equiv> snd (run_pool (sqlite_pool_init path limit) calls)"
  shows "(\<forall>i j c. i \<le> j \<and> j < length calls \<and> fst (calls ! i) = fst (calls ! j)
            \<and> ress ! i = Inr c \<longrightarrow> ress ! j = Inr c)
       \<and> card (returned ress) \<le> card (fst ` set calls)
       \<and> connections_created (stats final) \<le> card (fst ` set calls)"
proof -
  let ?init = "sqlite_pool_init path limit"
  have d: "dom (local_connection final) \<subseteq> fst ` set calls"
    using run_pool_dom [of ?init calls] by (simp add: final_def sqlite_pool_init_def)
  have fin: "finite (dom (local_connection final))"
    using d by (rule finite_subset) simp
  have "card (returned ress) \<le> card (ran (local_connection final))"
    unfolding ress_def final_def
    by (rule card_mono [OF _ run_pool_returned]) (use fin in \<open>simp add: finite_ran final_def\<close>)
  also have "\<dots> \<le> card (dom (local_connection final))"
  proof -
    have "ran (local_connection final) = (\<lambda>t. the (local_connection final t)) ` dom (local_connection final)"
      by (auto simp: ran_def dom_def image_iff) force
    then show ?thesis using card_image_le [OF fin] by simp
  qed
  also have "\<dots> \<le> card (fst ` set calls)"
    by (rule card_mono [OF _ d]) simp
  finally have r: "card (returned ress) \<le> card (fst ` set calls)" .
  have "pool_inv ?init" by (simp add: pool_inv_def sqlite_pool_init_def)
  then have "pool_inv final" unfolding final_def by (rule run_pool_inv)
  then have "connections_created (stats final) \<le> card (dom (local_connection final))"
    by (simp add: pool_inv_def)
  also have "\<dots> \<le> card (fst ` set calls)"
    by (rule card_mono [OF _ d]) simp
  finally have cr: "connections_created (stats final) \<le> card (fst ` set calls)" .
  show ?thesis
    using r cr run_pool_idempotent [of _ _ calls ?init]
    unfolding ress_def by blast
qed


theorem get_connection_per_worker_witness:
  "fst (run_pool (sqlite_pool_init ''rag_app.db'' 10) five_workers)
     = [Inr 0, Inr 1, Inr 0, Inr 2, Inr 3, Inr 4, Inr 1, Inr 4, Inr 0]
   \<and> card (returned (fst (run_pool (sqlite_pool_init ''rag_app.db'' 10) five_workers))) \<le> 5
   \<and> connections_created (stats (snd (run_pool (sqlite_pool_init ''rag_app.db'' 10) five_workers)))
       \<le> 5"
proof -
  have "fst ` set five_workers = {0, 1, 2, 3, 4}"
    by (auto simp: five_workers_def)
  then have c: "card (fst ` set five_workers) = 5"
    by simp
  have e: "fst (run_pool (sqlite_pool_init ''rag_app.db'' 10) five_workers)
     = [Inr 0, Inr 1, Inr 0, Inr 2, Inr 3, Inr 4, Inr 1, Inr 4, Inr 0]"
    by (simp add: five_workers_def sqlite_pool_init_def get_connection_def Let_def)
  from get_connection_per_worker [of five_workers "''rag_app.db''" 10] c e
  show ?thesis by simp
qed
section \<open>Properties of the vectorstore cache\<close>

lemma creations_append [simp]:
  "creations env key (xs @ ys) = creations env key xs + creations env key ys"
  by (simp add: creations_def)

lemma creations_single [simp]:
  "creations env key [(k, r)] = (if cache_key env k = key \<and> r \<noteq> None then 1 else 0)"
  by (simp add: creations_def)

lemma creations_Nil [simp]: "creations env key [] = 0"
  by (simp add: creations_def)

lemma get_vectorstore_cases:
  assumes "get_vectorstore env self k a b = (res, self')"
  shows "(self' = self \<and> (k = [] \<or> (\<exists>ts. connections self (cache_key env k) = Some (the res, ts)
                                      \<and> res \<noteq> None
                                      \<and> a - ts < real_of_int (cache_ttl_minutes self * 60))))
       \<or> (k \<noteq> [] \<and> fst (check_cached self (cache_key env k) a) = None
          \<and> cache_ttl_minutes self' = cache_ttl_minutes self
          \<and> ((res = None
               \<and> (\<exists>e. factory env (length (factory_calls self)) k = Inl e)
               \<and> factory_calls self' = factory_calls self @ [(k, None)]
               \<and> connections self' = (connections self)(cache_key env k := None))
            \<or> (\<exists>vs. res = Some vs
               \<and> factory env (length (factory_calls self)) k = Inr vs
               \<and> factory_calls self' = factory_calls self @ [(k, Some vs)]
               \<and> connections self' = (connections self)(cache_key env k \<mapsto> (vs, b)))))"
  using assms
  by (auto simp: get_vectorstore_def check_cached_def create_vectorstore_def
        store_vectorstore_def Let_def fun_eq_iff
        split: if_splits option.splits sum.splits prod.splits)


text \<open>
  Claim C8.  When \<open>get_vectorstore\<close> reaches the factory (the credential is not empty and
  its fingerprint has no live entry) and the factory fails, the call returns \<open>None\<close> and
  leaves no entry under that fingerprint; the other entries are untouched.  A following
  call for that fingerprint with a credential that the factory accepts therefore invokes
  the factory again and returns the new handle: no failure is ever read from the cache.
\<close>

theorem get_vectorstore_failure_not_cached:
  fixes now' :: real
  assumes key: "api_key \<noteq> []"
    and miss: "fst (check_cached self (cache_key env api_key) now) = None"
    and fails: "factory env (length (factory_calls self)) api_key = Inl e"
  defines "self' \<equiv> snd (get_vectorstore env self api_key now now')"
  shows "fst (get_vectorstore env self api_key now now') = None
       \<and> connections self' (cache_key env api_key) = None
       \<and> (\<forall>k. k \<noteq> cache_key env api_key \<longrightarrow> connections self' k = connections self k)
       \<and> factory_calls self' = factory_calls self @ [(api_key, None)]
       \<and> (\<forall>retry vs t t'.
             retry \<noteq> [] \<and> cache_key env retry = cache_key env api_key
             \<and> factory env (length (factory_calls self')) retry = Inr vs \<longrightarrow>
             fst (get_vectorstore env self' retry t t') = Some vs
             \<and> factory_calls (snd (get_vectorstore env self' retry t t'))
                 = factory_calls self' @ [(retry, Some vs)])"
proof -
  obtain res where g: "get_vectorstore env self api_key now now' = (res, self')"
    unfolding self'_def by (cases "get_vectorstore env self api_key now now'") simp
  from get_vectorstore_cases [OF g] key miss fails
  have 1: "res = None" and 2: "factory_calls self' = factory_calls self @ [(api_key, None)]"
    and 3: "connections self' = (connections self)(cache_key env api_key := None)"
    by (auto simp: check_cached_def split: option.splits if_splits)
  have 4: "fst (get_vectorstore env self' retry t t') = Some vs
           \<and> factory_calls (snd (get_vectorstore env self' retry t t'))
               = factory_calls self' @ [(retry, Some vs)]"
    if "retry \<noteq> []" "cache_key env retry = cache_key env api_key"
       "factory env (length (factory_calls self')) retry = Inr vs" for retry vs t t'
    using that 3
    by (simp add: get_vectorstore_def check_cached_def create_vectorstore_def
          store_vectorstore_def)
  from 1 2 3 4 g show ?thesis by simp
qed

lemma run_calls_ttl [simp]:
  "cache_ttl_minutes (run_calls env self calls) = cache_ttl_minutes self"
proof (induction calls arbitrary: self)
  case Nil
  then show ?case by simp
next
  case (Cons c calls)
  obtain k a b where c: "c = (k, a, b)" by (cases c)
  obtain res self' where g: "get_vectorstore env self k a b = (res, self')"
    by (cases "get_vectorstore env self k a b")
  from get_vectorstore_cases [OF g] have "cache_ttl_minutes self' = cache_ttl_minutes self"
    by auto
  with Cons.IH [of self'] c g show ?case by simp
qed

lemma run_calls_cached:
  assumes "connections self key = Some (vs, ts)" and "t0 \<le> ts"
    and "\<forall>c\<in>set calls. fst (snd c) < t0 + real_of_int (cache_ttl_minutes self * 60)"
  shows "creations env key (factory_calls (run_calls env self calls))
         = creations env key (factory_calls self)"
  using assms
proof (induction calls arbitrary: self vs ts)
  case Nil
  then show ?case by simp
next
  case (Cons c calls)
  obtain k a b where c: "c = (k, a, b)" by (cases c)
  obtain res self' where g: "get_vectorstore env self k a b = (res, self')"
    by (cases "get_vectorstore env self k a b")
  from Cons.prems c have a: "a - ts < real_of_int (cache_ttl_minutes self * 60)" by simp
  have ttl: "cache_ttl_minutes self' = cache_ttl_minutes self"
    using get_vectorstore_cases [OF g] by auto
  have rest: "\<forall>c\<in>set calls. fst (snd c) < t0 + real_of_int (cache_ttl_minutes self' * 60)"
    using Cons.prems(3) ttl by simp
  show ?case
  proof (cases "k \<noteq> [] \<and> cache_key env k = key")
    case True
    with Cons.prems(1) a have "get_vectorstore env self k a b = (Some vs, self)"
      by (simp add: get_vectorstore_def check_cached_def)
    with g have "self' = self" by simp
    with Cons.IH [OF Cons.prems(1,2)] Cons.prems(3) c g show ?thesis by simp
  next
    case False
    from get_vectorstore_cases [OF g] False Cons.prems(1)
    have "connections self' key = Some (vs, ts)
          \<and> creations env key (factory_calls self') = creations env key (factory_calls self)"
      by auto
    with Cons.IH [OF _ Cons.prems(2) rest, of vs] c g show ?thesis by simp
  qed
qed

text \<open>
  Claim C3, as the code has it.  The mutex guards the check and the store, each on its
  own; the creation runs between them without the lock.  For calls that do not overlap
  (each \<open>get_vectorstore\<close> returns before the next begins) and that lie within one expiry
  window, the factory creates a handle at most once for a fingerprint: after a successful
  creation every later call of the window is served from the cache.
\<close>

theorem get_vectorstore_sequential_single_flight:
  assumes "\<forall>c\<in>set calls. t0 \<le> snd (snd c)
             \<and> fst (snd c) < t0 + real_of_int (cache_ttl_minutes self * 60)"
  shows "creations env key (factory_calls (run_calls env self calls))
         \<le> creations env key (factory_calls self) + 1"
  using assms
proof (induction calls arbitrary: self)
  case Nil
  then show ?case by simp
next
  case (Cons c calls)
  obtain k a b where c: "c = (k, a, b)" by (cases c)
  obtain res self' where g: "get_vectorstore env self k a b = (res, self')"
    by (cases "get_vectorstore env self k a b")
  have ttl: "cache_ttl_minutes self' = cache_ttl_minutes self"
    using get_vectorstore_cases [OF g] by auto
  have rest: "\<forall>c\<in>set calls. t0 \<le> snd (snd c)
             \<and> fst (snd c) < t0 + real_of_int (cache_ttl_minutes self' * 60)"
    using Cons.prems ttl by simp
  have run: "run_calls env self (c # calls) = run_calls env self' calls"
    by (simp add: c g)
  show ?case
  proof (cases "creations env key (factory_calls self') = creations env key (factory_calls self)")
    case True
    with Cons.IH [OF rest] run show ?thesis by simp
  next
    case False
    with get_vectorstore_cases [OF g] obtain vs where
      new: "factory_calls self' = factory_calls self @ [(k, Some vs)]" "cache_key env k = key"
        "connections self' key = Some (vs, b)"
      by (auto split: if_splits)
    from Cons.prems c have "t0 \<le> b" by simp
    from run_calls_cached [OF new(3) this, of calls env] rest
    have "creations env key (factory_calls (run_calls env self' calls))
          = creations env key (factory_calls self')" by simp
    with new run show ?thesis by simp
  qed
qed

lemma worker_steps_get_vectorstore:
  "run_schedule env [Calling k] self [(0, a), (0, a'), (0, b)]
     = ([Done (fst (get_vectorstore env self k a b))], snd (get_vectorstore env self k a b))"
  by (auto simp: worker_step_def get_vectorstore_def Let_def
        split: option.splits prod.splits sum.splits)

lemmas chroma_eval =
  get_vectorstore_def check_cached_def create_vectorstore_def store_vectorstore_def
  worker_step_def chroma_cache_init_def cache_key_def fresh_env_def late_env_def
  str_int_def str_nat.simps digit_char_def Let_def

text \<open>
  Claim C3 as stated fails under concurrent access: two workers that call with the same
  credential can both pass the check before either stores, and then both invoke the
  factory, within one expiry window.
\<close>

theorem get_vectorstore_single_flight_counterexample:
  "run_schedule fresh_env [Calling ''sk-live'', Calling ''sk-live''] (chroma_cache_init 30)
     [(0, 0), (1, 0), (0, 1), (1, 1), (0, 2), (1, 2)]
   = ([Done (Some 0), Done (Some 1)],
      \<lparr>cache_ttl_minutes = 30,
       connections = [''chroma_7'' \<mapsto> (1, 2)],
       factory_calls = [(''sk-live'', Some 0), (''sk-live'', Some 1)]\<rparr>)
   \<and> creations fresh_env (cache_key fresh_env ''sk-live'')
        [(''sk-live'', Some 0), (''sk-live'', Some 1)] = 2"
  by (simp add: chroma_eval creations_def)


theorem get_vectorstore_failure_not_cached_witness:
  "fst (get_vectorstore late_env (chroma_cache_init 30) ''sk-old'' 0 1) = None
   \<and> connections (snd (get_vectorstore late_env (chroma_cache_init 30) ''sk-old'' 0 1))
        (cache_key late_env ''sk-old'') = None
   \<and> fst (get_vectorstore late_env
            (snd (get_vectorstore late_env (chroma_cache_init 30) ''sk-old'' 0 1))
            ''sk-new'' 2 3) = Some 1"
proof -
  let ?self' = "snd (get_vectorstore late_env (chroma_cache_init 30) ''sk-old'' 0 1)"
  have h1: "''sk-old'' \<noteq> []" by simp
  have h2: "fst (check_cached (chroma_cache_init 30) (cache_key late_env ''sk-old'') 0) = None"
    by (simp add: chroma_eval)
  have h3: "factory late_env (length (factory_calls (chroma_cache_init 30))) ''sk-old''
            = Inl ValueError"
    by (simp add: chroma_eval)
  note T = get_vectorstore_failure_not_cached [OF h1 h2 h3, of 1]
  from T have log: "factory_calls ?self' = [(''sk-old'', None)]"
    by (simp add: chroma_cache_init_def)
  have r: "''sk-new'' \<noteq> [] \<and> cache_key late_env ''sk-new'' = cache_key late_env ''sk-old''
           \<and> factory late_env (length (factory_calls ?self')) ''sk-new'' = Inr 1"
    unfolding log by (simp add: cache_key_def late_env_def)
  from T have "\<forall>retry vs t t'.
      retry \<noteq> [] \<and> cache_key late_env retry = cache_key late_env ''sk-old''
      \<and> factory late_env (length (factory_calls ?self')) retry = Inr vs \<longrightarrow>
      fst (get_vectorstore late_env ?self' retry t t') = Some vs
      \<and> factory_calls (snd (get_vectorstore late_env ?self' retry t t'))
          = factory_calls ?self' @ [(retry, Some vs)]"
    by blast
  with r have "fst (get_vectorstore late_env ?self' ''sk-new'' 2 3) = Some 1" by blast
  with T show ?thesis by simp
qed

theorem get_vectorstore_sequential_single_flight_witness:
  "creations fresh_env (cache_key fresh_env ''sk-live'')
     (factory_calls (run_calls fresh_env (chroma_cache_init 30) three_calls)) \<le> 1
   \<and> factory_calls (run_calls fresh_env (chroma_cache_init 30) three_calls)
       = [(''sk-live'', Some 0)]"
proof -
  have h: "\<forall>c\<in>set three_calls. 0 \<le> snd (snd c)
             \<and> fst (snd c) < 0 + real_of_int (cache_ttl_minutes (chroma_cache_init 30) * 60)"
    by (simp add: three_calls_def chroma_cache_init_def)
  have e: "factory_calls (run_calls fresh_env (chroma_cache_init 30) three_calls)
       = [(''sk-live'', Some 0)]"
    by (simp add: three_calls_def chroma_eval)
  from get_vectorstore_sequential_single_flight
         [OF h, of fresh_env "cache_key fresh_env ''sk-live''"] e
  show ?thesis by (simp add: chroma_cache_init_def)
qed
end
